theory Spec2Isabelle
  imports Main "HOL-Library.Word"
begin

section \<open>The output stream\<close>

text \<open>
  \<open>formatter.h\<close> writes through a \<open>std::ostream\<close>. The model keeps the part of the
  stream's state that the formatter sets or that decides what is written: the numeric
  base, the float notation, the letter case, the sign display, the adjustment, the
  field width, the precision, the fill character, and the characters written so far.
  Every other flag (\<open>showbase\<close>, \<open>boolalpha\<close>, \<open>internal\<close> adjustment, ...) is never
  touched by the formatter and is taken at its value in a fresh \<open>std::stringstream\<close>.
\<close>

datatype basefield = Dec | Oct | Hex

datatype floatfield = DefaultFloat | Fixed | Scientific | HexFloat

datatype adjustfield = AdjNone | AdjLeft | AdjRight

record ostream =
  os_base :: basefield
  os_float :: floatfield
  os_uppercase :: bool
  os_showpos :: bool
  os_adjust :: adjustfield
  os_width :: int
  os_precision :: int
  os_fill :: char
  os_buf :: string

text \<open>The state of a freshly constructed \<open>std::stringstream\<close>.\<close>

definition stringstream :: ostream where
  "stringstream =
     \<lparr>os_base = Dec, os_float = DefaultFloat, os_uppercase = False, os_showpos = False,
      os_adjust = AdjNone, os_width = 0, os_precision = 6, os_fill = CHR '' '',
      os_buf = []\<rparr>"

text \<open>
  Padding of a field to the stream's width: fill characters go after the text when the
  adjustment is \<open>left\<close>, before it otherwise. A width that does not exceed the length of
  the text (zero or negative widths included) pads nothing.
\<close>

definition padded :: "ostream \<Rightarrow> string \<Rightarrow> string" where
  "padded os s =
     (if int (length s) < os_width os
      then (if os_adjust os = AdjLeft
            then s @ replicate (nat (os_width os - int (length s))) (os_fill os)
            else replicate (nat (os_width os - int (length s))) (os_fill os) @ s)
      else s)"

text \<open>A formatted insertion: the padded text is appended and the width is reset to 0.\<close>

definition insert_text :: "ostream \<Rightarrow> string \<Rightarrow> ostream" where
  "insert_text os s = os\<lparr>os_buf := os_buf os @ padded os s, os_width := 0\<rparr>"

text \<open>\<open>os << c\<close> for a \<open>char\<close>.\<close>

definition put_char :: "ostream \<Rightarrow> char \<Rightarrow> ostream" where
  "put_char os c = insert_text os [c]"

text \<open>\<open>os.copyfmt(state)\<close>: every formatting attribute of \<open>state\<close>, the buffer of \<open>os\<close>.\<close>

definition copyfmt :: "ostream \<Rightarrow> ostream \<Rightarrow> ostream" where
  "copyfmt os state = state\<lparr>os_buf := os_buf os\<rparr>"

subsection \<open>Integers in a numeric base\<close>

definition radix :: "basefield \<Rightarrow> nat" where
  "radix b = (case b of Dec \<Rightarrow> 10 | Oct \<Rightarrow> 8 | Hex \<Rightarrow> 16)"

definition digit_char :: "bool \<Rightarrow> nat \<Rightarrow> char" where
  "digit_char upper d =
     (if d < 10 then char_of (48 + d)
      else if upper then char_of (55 + d) else char_of (87 + d))"

function digits :: "nat \<Rightarrow> bool \<Rightarrow> nat \<Rightarrow> string" where
  "digits b upper n =
     (if n < b \<or> b < 2 then [digit_char upper n]
      else digits b upper (n div b) @ [digit_char upper (n mod b)])"
  by pat_completeness auto
termination
  by (relation "measure (\<lambda>(b, upper, n). n)") auto

declare digits.simps [simp del]

text \<open>
  \<open>os << v\<close> for an unsigned integer type: the digits of the value in the stream's base;
  \<open>showpos\<close> has no effect on unsigned types.
\<close>

definition put_unsigned :: "ostream \<Rightarrow> 'a::len word \<Rightarrow> ostream" where
  "put_unsigned os v =
     insert_text os (digits (radix (os_base os)) (os_uppercase os) (unat v))"

text \<open>
  \<open>os << v\<close> for a signed integer type. In decimal the value is written with a minus
  sign when negative and, under \<open>showpos\<close>, a plus sign otherwise. In octal and
  hexadecimal the value is written as the unsigned number with the same bits.
\<close>

definition signed_text :: "ostream \<Rightarrow> 'a::len word \<Rightarrow> string" where
  "signed_text os v =
     (case os_base os of
        Dec \<Rightarrow>
          (if sint v < 0 then CHR ''-'' # digits 10 (os_uppercase os) (nat (- sint v))
           else (if os_showpos os then ''+'' else '''')
                @ digits 10 (os_uppercase os) (nat (sint v)))
      | Oct \<Rightarrow> digits 8 (os_uppercase os) (unat v)
      | Hex \<Rightarrow> digits 16 (os_uppercase os) (unat v))"

definition put_signed :: "ostream \<Rightarrow> 'a::len word \<Rightarrow> ostream" where
  "put_signed os v = insert_text os (signed_text os v)"

section \<open>Arguments\<close>

text \<open>
  The formatter is a template over the static types of its arguments. The model covers
  these argument types, on an LP64 platform with a signed plain \<open>char\<close>: the character
  and integer types by their width and signedness (\<open>long\<close> is \<open>long long\<close>), \<open>float\<close>
  and \<open>double\<close> as their bit patterns, object pointers, string literals (\<open>char\<close> arrays),
  \<open>std::string\<close>, \<open>std::vector\<close> and \<open>std::array\<close> of arithmetic elements, and
  \<open>Hex::Hexdumper\<close> wrappers.
\<close>

datatype scalar =
    C_char "8 word"
  | C_schar "8 word"
  | C_uchar "8 word"
  | C_short "16 word"
  | C_ushort "16 word"
  | C_int "32 word"
  | C_uint "32 word"
  | C_longlong "64 word"
  | C_ulonglong "64 word"
  | C_float "32 word"
  | C_double "64 word"

datatype elem_type =
    T_char | T_schar | T_uchar | T_short | T_ushort | T_int | T_uint
  | T_longlong | T_ulonglong | T_float | T_double

datatype arg =
    Scalar scalar
  | Pointer "64 word"
  | CharArray string
  | String string
  | Vector elem_type "scalar list"
  | Array elem_type "scalar list"
  | Hexdumper "8 word list"

fun is_integral :: "scalar \<Rightarrow> bool" where
  "is_integral (C_float _) = False"
| "is_integral (C_double _) = False"
| "is_integral _ = True"

fun is_floating_point :: "scalar \<Rightarrow> bool" where
  "is_floating_point (C_float _) = True"
| "is_floating_point (C_double _) = True"
| "is_floating_point _ = False"

fun is_signed :: "scalar \<Rightarrow> bool" where
  "is_signed (C_uchar _) = False"
| "is_signed (C_ushort _) = False"
| "is_signed (C_uint _) = False"
| "is_signed (C_ulonglong _) = False"
| "is_signed _ = True"

text \<open>
  \<open>is_container\<close> as \<open>formatter.h\<close> declares it: \<open>std::vector\<close>, \<open>std::basic_string\<close>
  and \<open>std::array\<close>; with its \<open>value_type\<close>.
\<close>

fun is_container :: "arg \<Rightarrow> bool" where
  "is_container (Vector _ _) = True"
| "is_container (String _) = True"
| "is_container (Array _ _) = True"
| "is_container _ = False"

fun is_hexdumper :: "arg \<Rightarrow> bool" where
  "is_hexdumper (Hexdumper _) = True"
| "is_hexdumper _ = False"

fun value_type :: "arg \<Rightarrow> elem_type" where
  "value_type (Vector t _) = t"
| "value_type (Array t _) = t"
| "value_type _ = T_char"

section \<open>Collaborators outside the formatter\<close>

text \<open>
  The hex dumper (\<open>hexdumper.h\<close>), the character set conversion (\<open>stringconvert.h\<close>)
  and the standard library's rendering of floating point numbers and of pointers are
  not part of \<open>formatter.h\<close>. The formatter is modelled relative to them: they are
  fields of a record that every operation takes as its first argument.
\<close>

record ext =
  hex_dumper :: "ostream \<Rightarrow> arg \<Rightarrow> ostream"
    \<comment> \<open>\<open>os << Hex::dumper(value)\<close>, and \<open>os << value\<close> for a \<open>Hex::Hexdumper\<close>\<close>
  convert_wchar :: "32 word \<Rightarrow> string"
    \<comment> \<open>\<open>string::convert<char>\<close> of the one-character wide string\<close>
  put_pointer :: "ostream \<Rightarrow> 64 word \<Rightarrow> ostream"
    \<comment> \<open>\<open>os << (const void*)value\<close>\<close>
  put_floating :: "ostream \<Rightarrow> scalar \<Rightarrow> ostream"
    \<comment> \<open>\<open>os << value\<close> for a \<open>float\<close> or a \<open>double\<close>\<close>
  integer_part :: "scalar \<Rightarrow> int"
    \<comment> \<open>the integer part of a \<open>float\<close> or a \<open>double\<close>, as a cast to an integer type takes it\<close>

section \<open>Conversions between arithmetic types\<close>

text \<open>
  \<open>(long long)value\<close>, and for a value of an unsigned type \<open>(unsigned long long)value\<close>,
  which has the same bits.
\<close>

fun to_long_long :: "ext \<Rightarrow> scalar \<Rightarrow> 64 word" where
  "to_long_long X (C_char v) = scast v"
| "to_long_long X (C_schar v) = scast v"
| "to_long_long X (C_uchar v) = ucast v"
| "to_long_long X (C_short v) = scast v"
| "to_long_long X (C_ushort v) = ucast v"
| "to_long_long X (C_int v) = scast v"
| "to_long_long X (C_uint v) = ucast v"
| "to_long_long X (C_longlong v) = v"
| "to_long_long X (C_ulonglong v) = v"
| "to_long_long X (C_float v) = word_of_int (integer_part X (C_float v))"
| "to_long_long X (C_double v) = word_of_int (integer_part X (C_double v))"

text \<open>\<open>unsigned(b)\<close> and \<open>wchar_t(value)\<close>: both are 32 bits wide.\<close>

fun to_32 :: "ext \<Rightarrow> scalar \<Rightarrow> 32 word" where
  "to_32 X (C_char v) = scast v"
| "to_32 X (C_schar v) = scast v"
| "to_32 X (C_uchar v) = ucast v"
| "to_32 X (C_short v) = scast v"
| "to_32 X (C_ushort v) = ucast v"
| "to_32 X (C_int v) = v"
| "to_32 X (C_uint v) = v"
| "to_32 X (C_longlong v) = ucast v"
| "to_32 X (C_ulonglong v) = ucast v"
| "to_32 X (C_float v) = word_of_int (integer_part X (C_float v))"
| "to_32 X (C_double v) = word_of_int (integer_part X (C_double v))"

section \<open>Writing a value: \<open>os << value\<close>\<close>

fun put_scalar :: "ext \<Rightarrow> ostream \<Rightarrow> scalar \<Rightarrow> ostream" where
  "put_scalar X os (C_char v) = put_char os (char_of (unat v))"
| "put_scalar X os (C_schar v) = put_char os (char_of (unat v))"
| "put_scalar X os (C_uchar v) = put_char os (char_of (unat v))"
| "put_scalar X os (C_short v) = put_signed os v"
| "put_scalar X os (C_ushort v) = put_unsigned os v"
| "put_scalar X os (C_int v) = put_signed os v"
| "put_scalar X os (C_uint v) = put_unsigned os v"
| "put_scalar X os (C_longlong v) = put_signed os v"
| "put_scalar X os (C_ulonglong v) = put_unsigned os v"
| "put_scalar X os (C_float v) = put_floating X os (C_float v)"
| "put_scalar X os (C_double v) = put_floating X os (C_double v)"

text \<open>
  The \<open>operator<<\<close> that \<open>formatter.h\<close> defines for \<open>std::vector\<close> and, with the same
  body, for \<open>std::array\<close>. \<open>put_elements\<close> is its loop: \<open>state\<close> and \<open>fillchar\<close> are the
  format state and the fill character saved before the loop, \<open>first\<close> the loop's flag.
\<close>

fun put_elements :: "ext \<Rightarrow> ostream \<Rightarrow> char \<Rightarrow> bool \<Rightarrow> ostream \<Rightarrow> scalar list \<Rightarrow> ostream" where
  "put_elements X state fillchar first os [] = os"
| "put_elements X state fillchar first os (b # buf) =
     (let os1 = copyfmt os state;
          os2 = (if \<not> first \<and> fillchar \<noteq> CHR 0x00 then put_char os1 fillchar else os1);
          os3 = put_unsigned os2 (to_32 X b)
      in put_elements X state fillchar False os3 buf)"

definition put_container :: "ext \<Rightarrow> ostream \<Rightarrow> scalar list \<Rightarrow> ostream" where
  "put_container X os buf = put_elements X os (os_fill os) True os buf"

fun put_value :: "ext \<Rightarrow> ostream \<Rightarrow> arg \<Rightarrow> ostream" where
  "put_value X os (Scalar v) = put_scalar X os v"
| "put_value X os (Pointer a) = put_pointer X os a"
| "put_value X os (CharArray s) = insert_text os s"
| "put_value X os (String s) = insert_text os s"
| "put_value X os (Vector t buf) = put_container X os buf"
| "put_value X os (Array t buf) = put_container X os buf"
| "put_value X os (Hexdumper d) = hex_dumper X os (Hexdumper d)"

section \<open>The format string\<close>

text \<open>
  A format string is a \<open>const char *\<close>. The model holds the characters before its
  terminating NUL; the scan cursor \<open>p\<close> is the list of the characters from the cursor to
  the terminator, so \<open>[]\<close> is the cursor on the terminator, where \<open>*p\<close> is NUL. One step
  further the cursor is outside the string: reading there is undefined in C++, and the
  model reports it as the outcome \<open>PastEnd\<close>.
\<close>

text \<open>\<open>std::strchr(set, c) != NULL\<close>: the terminating NUL of \<open>set\<close> counts as part of it.\<close>

definition strchr :: "string \<Rightarrow> char \<Rightarrow> bool" where
  "strchr s c = (c \<in> set s \<or> c = CHR 0x00)"

subsection \<open>\<open>strtol\<close> in base 10\<close>

definition isspace :: "char \<Rightarrow> bool" where
  "isspace c = (c \<in> set [CHR '' '', CHR 0x09, CHR 0x0A, CHR 0x0B, CHR 0x0C, CHR 0x0D])"

definition isdigit :: "char \<Rightarrow> bool" where
  "isdigit c = (48 \<le> (of_char c :: nat) \<and> (of_char c :: nat) \<le> 57)"

definition digit_value :: "char \<Rightarrow> int" where
  "digit_value c = int (of_char c) - 48"

definition decimal_value :: "string \<Rightarrow> int" where
  "decimal_value ds = foldl (\<lambda>a c. 10 * a + digit_value c) 0 ds"

definition LONG_MAX :: int where
  "LONG_MAX = 2 ^ 63 - 1"

definition LONG_MIN :: int where
  "LONG_MIN = - (2 ^ 63)"

text \<open>
  \<open>strtol(p, &q, 10)\<close> gives the value and \<open>q\<close>: white space is skipped, one sign is
  accepted, and the digits that follow are read. With no digit there nothing is
  converted: the value is 0 and \<open>q\<close> is \<open>p\<close>. A value outside \<open>long\<close>, which has 64 bits
  here, is clamped.
\<close>

definition strtol :: "string \<Rightarrow> int \<times> string" where
  "strtol p =
     (let s = dropWhile isspace p;
          neg = (case s of [] \<Rightarrow> False | c # r \<Rightarrow> c = CHR ''-'');
          s1 = (case s of [] \<Rightarrow> s | c # r \<Rightarrow> if c = CHR ''-'' \<or> c = CHR ''+'' then r else s);
          ds = takeWhile isdigit s1
      in if ds = [] then (0, p)
         else (if neg then max LONG_MIN (- decimal_value ds)
               else min LONG_MAX (decimal_value ds),
               dropWhile isdigit s1))"

text \<open>The conversion of the \<open>long\<close> to \<open>int\<close> in \<open>int width= strtol(...)\<close>.\<close>

definition long_to_int :: "int \<Rightarrow> int" where
  "long_to_int v = sint (word_of_int v :: 32 word)"

subsection \<open>One conversion specifier\<close>

text \<open>The local variables of \<open>format\<close> that hold a parsed specifier.\<close>

record convspec =
  leftadjust :: bool
  forcesign :: bool
  padchar :: char
  width :: int
  havewidth :: bool
  precision :: int
  haveprecision :: bool
  type :: char

text \<open>\<open>if (*p=='-') { p++; leftadjust= true; }\<close>\<close>

definition parse_leftadjust :: "string \<Rightarrow> bool \<times> string" where
  "parse_leftadjust p =
     (case p of [] \<Rightarrow> (False, p)
      | c # r \<Rightarrow> if c = CHR ''-'' then (True, r) else (False, p))"

text \<open>\<open>if (*p=='+') { p++; forcesign= true; } else if (*p==' ') { p++; }\<close>\<close>

definition parse_forcesign :: "string \<Rightarrow> bool \<times> string" where
  "parse_forcesign p =
     (case p of [] \<Rightarrow> (False, p)
      | c # r \<Rightarrow> if c = CHR ''+'' then (True, r)
                else if c = CHR '' '' then (False, r) else (False, p))"

text \<open>\<open>if (*p=='0') { p++; padchar='0'; } else if (*p==',') { p++; padchar=','; }\<close>\<close>

definition parse_padchar :: "string \<Rightarrow> char \<times> string" where
  "parse_padchar p =
     (case p of [] \<Rightarrow> (CHR '' '', p)
      | c # r \<Rightarrow> if c = CHR ''0'' then (CHR ''0'', r)
                else if c = CHR '','' then (CHR '','', r) else (CHR '' '', p))"

text \<open>\<open>int width= strtol(p, &q, 10); bool havewidth= p!=q; p= q;\<close>\<close>

definition parse_width :: "string \<Rightarrow> int \<times> bool \<times> string" where
  "parse_width p = (case strtol p of (v, q) \<Rightarrow> (long_to_int v, p \<noteq> q, q))"

text \<open>The precision after \<open>'.'\<close>.\<close>

definition parse_precision :: "string \<Rightarrow> int \<times> bool \<times> string" where
  "parse_precision p =
     (case p of [] \<Rightarrow> (0, False, p)
      | c # r \<Rightarrow> if c = CHR ''.'' then parse_width r else (0, False, p))"

text \<open>
  \<open>while (std::strchr("qhlLzjt", *p)) p++;\<close> On the terminator \<open>strchr\<close> finds the NUL of
  its set, so the cursor steps past the end of the string and the next test reads
  there: the result \<open>None\<close>.
\<close>

fun skip_size :: "string \<Rightarrow> string option" where
  "skip_size [] = None"
| "skip_size (c # r) = (if strchr ''qhlLzjt'' c then skip_size r else Some (c # r))"

text \<open>
  \<open>if (*p=='I') { p++; if (p[1]=='6' || p[1]=='4') { p+=2; } }\<close> After the \<open>I\<close> the
  test reads the second character from the cursor; when the \<open>I\<close> was the last character
  of the string, that is one past the terminator: the result \<open>None\<close>.
\<close>

fun skip_I64 :: "string \<Rightarrow> string option" where
  "skip_I64 [] = Some []"
| "skip_I64 (c # r) =
     (if c = CHR ''I''
      then (case r of
              [] \<Rightarrow> None
            | [c0] \<Rightarrow> Some r
            | c0 # c1 # r2 \<Rightarrow> if c1 = CHR ''6'' \<or> c1 = CHR ''4'' then Some r2 else Some r)
      else Some (c # r))"

text \<open>\<open>char type= 0; if (*p) type= *p++;\<close>\<close>

definition parse_type :: "string \<Rightarrow> char \<times> string" where
  "parse_type p = (case p of [] \<Rightarrow> (CHR 0x00, p) | c # r \<Rightarrow> (c, r))"

text \<open>
  The specifier that starts at the cursor, which stands behind a \<open>%\<close> that is not
  followed by a second one, and the cursor behind the specifier.
\<close>

definition parse_spec :: "string \<Rightarrow> (convspec \<times> string) option" where
  "parse_spec p =
     (case parse_leftadjust p of (la, p1) \<Rightarrow>
      case parse_forcesign p1 of (fs, p2) \<Rightarrow>
      case parse_padchar p2 of (pc, p3) \<Rightarrow>
      case parse_width p3 of (w, hw, p4) \<Rightarrow>
      case parse_precision p4 of (pr, hp, p5) \<Rightarrow>
      case skip_size p5 of None \<Rightarrow> None | Some p6 \<Rightarrow>
      case skip_I64 p6 of None \<Rightarrow> None | Some p7 \<Rightarrow>
      case parse_type p7 of (t, p8) \<Rightarrow>
        Some (\<lparr>leftadjust = la, forcesign = fs, padchar = pc, width = w, havewidth = hw,
               precision = pr, haveprecision = hp, type = t\<rparr>, p8))"

section \<open>Configuring the stream\<close>

definition is_upper :: "char \<Rightarrow> bool" where
  "is_upper c = (65 \<le> (of_char c :: nat) \<and> (of_char c :: nat) \<le> 90)"

text \<open>The \<open>switch\<close> of \<open>applytype\<close>; \<open>None\<close> is its \<open>default\<close> case, which throws.\<close>

definition applytype_switch :: "ostream \<Rightarrow> char \<Rightarrow> ostream option" where
  "applytype_switch os t =
     (if t = CHR ''b'' then Some os
      else if t \<in> set ''idu'' then Some (os\<lparr>os_base := Dec\<rparr>)
      else if t = CHR ''o'' then Some (os\<lparr>os_base := Oct\<rparr>)
      else if t \<in> set ''xX'' then Some (os\<lparr>os_base := Hex\<rparr>)
      else if t \<in> set ''fF'' then Some (os\<lparr>os_float := Fixed\<rparr>)
      else if t \<in> set ''gG'' then Some (os\<lparr>os_float := DefaultFloat\<rparr>)
      else if t \<in> set ''aA'' then Some (os\<lparr>os_float := HexFloat\<rparr>)
      else if t \<in> set ''eE'' then Some (os\<lparr>os_float := Scientific\<rparr>)
      else if t \<in> set ''cs'' then Some os
      else if t = CHR ''p'' then Some os
      else None)"

definition applytype :: "ostream \<Rightarrow> char \<Rightarrow> ostream option" where
  "applytype os t =
     (case applytype_switch os t of
        None \<Rightarrow> None
      | Some os1 \<Rightarrow> Some (os1\<lparr>os_uppercase := is_upper t\<rparr>))"

text \<open>
  The statements of \<open>format\<close> between the call of \<open>applytype\<close> and the dispatch on the
  type character: sign display, adjustment, width, precision and fill.
\<close>

definition use_formatting :: "ostream \<Rightarrow> convspec \<Rightarrow> ostream" where
  "use_formatting os sp =
     (let os1 = os\<lparr>os_showpos := forcesign sp\<rparr>;
          os2 = (if leftadjust sp then os1\<lparr>os_adjust := AdjLeft\<rparr> else os1);
          os3 = (if havewidth sp
                 then (let os' = os2\<lparr>os_width := width sp\<rparr>
                       in if \<not> leftadjust sp then os'\<lparr>os_adjust := AdjRight\<rparr> else os')
                 else os2\<lparr>os_width := 0\<rparr>);
          os4 = (if haveprecision sp then os3\<lparr>os_precision := precision sp\<rparr> else os3)
      in os4\<lparr>os_fill := padchar sp\<rparr>)"

section \<open>Emitting one argument\<close>

fun add_pointer :: "ext \<Rightarrow> ostream \<Rightarrow> arg \<Rightarrow> ostream" where
  "add_pointer X os (Pointer a) = put_pointer X os a"
| "add_pointer X os _ = os"

fun add_wchar :: "ext \<Rightarrow> ostream \<Rightarrow> arg \<Rightarrow> ostream" where
  "add_wchar X os (Scalar v) =
     (if is_integral v then insert_text os (convert_wchar X (to_32 X v)) else os)"
| "add_wchar X os _ = os"

definition hex_dump_data :: "ext \<Rightarrow> ostream \<Rightarrow> arg \<Rightarrow> ostream" where
  "hex_dump_data X os v =
     (if \<not> (is_container v \<or> is_hexdumper v) then os
      else if is_container v \<and> value_type v = T_double then os
      else (let os1 = (if os_fill os = CHR ''0'' then os\<lparr>os_fill := CHR 0x00\<rparr> else os)
            in hex_dumper X (os1\<lparr>os_base := Hex\<rparr>) v))"

fun output_int :: "ext \<Rightarrow> ostream \<Rightarrow> arg \<Rightarrow> ostream" where
  "output_int X os (Scalar v) =
     (if \<not> (is_integral v \<or> is_floating_point v) then os
      else if is_signed v then put_signed os (to_long_long X v)
      else put_unsigned os (to_long_long X v))"
| "output_int X os _ = os"

text \<open>The dispatch of \<open>format\<close> on the type character.\<close>

definition emit :: "ext \<Rightarrow> ostream \<Rightarrow> char \<Rightarrow> arg \<Rightarrow> ostream" where
  "emit X os t v =
     (if t = CHR ''c'' then add_wchar X os v
      else if t = CHR ''p'' then add_pointer X os v
      else if t = CHR ''b'' then hex_dump_data X os v
      else if strchr ''iduoxX'' t then output_int X os v
      else put_value X os v)"

section \<open>\<open>format\<close>\<close>

text \<open>
  The errors of a format call. \<open>formatter.h\<close> throws
  \<open>std::runtime_error("not enough arguments to format")\<close>,
  \<open>std::runtime_error("too many arguments for format")\<close> and the string
  \<open>"unknown format char"\<close>.
\<close>

datatype error = NotEnoughArguments | TooManyArguments | UnknownConversionChar

text \<open>How a call of \<open>format\<close> ends; the stream it leaves comes with it.\<close>

datatype status = Returned | Thrown error | PastEnd

text \<open>The overload of \<open>format\<close> with no argument left.\<close>

fun format0 :: "ostream \<Rightarrow> string \<Rightarrow> status \<times> ostream" where
  "format0 os [] = (Returned, os)"
| "format0 os (c # p) =
     (if c = CHR ''%''
      then (case p of
              [] \<Rightarrow> (Thrown NotEnoughArguments, os)
            | c1 # p1 \<Rightarrow>
                if c1 = CHR ''%'' then format0 (put_char os c1) p1
                else (Thrown NotEnoughArguments, os))
      else format0 (put_char os c) p)"

text \<open>
  The branch of the variadic overload that handles a specifier: it parses the specifier
  at the cursor \<open>p\<close>, configures the stream and emits \<open>value\<close>. It gives the stream and
  the cursor with which \<open>format\<close> is called for the remaining arguments, or how the
  call ends instead.
\<close>

definition conversion :: "ext \<Rightarrow> ostream \<Rightarrow> string \<Rightarrow> arg \<Rightarrow> status + ostream \<times> string" where
  "conversion X os p v =
     (case parse_spec p of
        None \<Rightarrow> Inl PastEnd
      | Some (sp, q) \<Rightarrow>
          (case applytype os (type sp) of
             None \<Rightarrow> Inl (Thrown UnknownConversionChar)
           | Some os1 \<Rightarrow> Inr (emit X (use_formatting os1 sp) (type sp) v, q)))"

text \<open>
  The variadic overload: \<open>v # args\<close> are the arguments still to be consumed. After the
  loop \<open>used_value\<close> is always false, since the branch that sets it returns.
\<close>

fun format :: "ext \<Rightarrow> ostream \<Rightarrow> string \<Rightarrow> arg list \<Rightarrow> status \<times> ostream" where
  "format X os p [] = format0 os p"
| "format X os [] (v # args) = (Thrown TooManyArguments, os)"
| "format X os (c # p) (v # args) =
     (if c = CHR ''%''
      then (case p of
              [] \<Rightarrow>
                (case conversion X os p v of
                   Inl st \<Rightarrow> (st, os)
                 | Inr (os1, q) \<Rightarrow> format X os1 q args)
            | c1 # p1 \<Rightarrow>
                if c1 = CHR ''%'' then format X (put_char os c1) p1 (v # args)
                else (case conversion X os p v of
                        Inl st \<Rightarrow> (st, os)
                      | Inr (os1, q) \<Rightarrow> format X os1 q args))
      else format X (put_char os c) p (v # args))"

text \<open>
  \<open>stringformat\<close> formats into a fresh \<open>std::stringstream\<close> and returns its contents;
  an exception of \<open>format\<close> passes through it.
\<close>

datatype outcome = Returns string | Throws error | ReadsPastEnd

definition stringformat :: "ext \<Rightarrow> string \<Rightarrow> arg list \<Rightarrow> outcome" where
  "stringformat X fmt args =
     (case format X stringstream fmt args of
        (Returned, os) \<Rightarrow> Returns (os_buf os)
      | (Thrown e, os) \<Rightarrow> Throws e
      | (PastEnd, os) \<Rightarrow> ReadsPastEnd)"

section \<open>Collaborators for the concrete examples\<close>

text \<open>
  Modelled from the spec: the bytes that the byte-dump renderer of \<open>hexdumper.h\<close>, which
  is not under \<open>src/\<close>, is given. They are the bytes of the elements of a container in
  memory order, the least significant byte of an element first.
\<close>

fun le_bytes :: "nat \<Rightarrow> 'a::len word \<Rightarrow> 8 word list" where
  "le_bytes 0 w = []"
| "le_bytes (Suc n) w = ucast w # le_bytes n (drop_bit 8 w)"

fun scalar_bytes :: "scalar \<Rightarrow> 8 word list" where
  "scalar_bytes (C_char v) = [v]"
| "scalar_bytes (C_schar v) = [v]"
| "scalar_bytes (C_uchar v) = [v]"
| "scalar_bytes (C_short v) = le_bytes 2 v"
| "scalar_bytes (C_ushort v) = le_bytes 2 v"
| "scalar_bytes (C_int v) = le_bytes 4 v"
| "scalar_bytes (C_uint v) = le_bytes 4 v"
| "scalar_bytes (C_longlong v) = le_bytes 8 v"
| "scalar_bytes (C_ulonglong v) = le_bytes 8 v"
| "scalar_bytes (C_float v) = le_bytes 4 v"
| "scalar_bytes (C_double v) = le_bytes 8 v"

fun arg_bytes :: "arg \<Rightarrow> 8 word list" where
  "arg_bytes (Vector t buf) = concat (map scalar_bytes buf)"
| "arg_bytes (Array t buf) = concat (map scalar_bytes buf)"
| "arg_bytes (String s) = map of_char s"
| "arg_bytes (Hexdumper d) = d"
| "arg_bytes _ = []"

text \<open>
  Modelled from the spec: what the byte-dump renderer of \<open>hexdumper.h\<close> writes. Section 6
  of the spec has it accept "a sequence of byte-sized values plus current numeric base
  and fill-character state" and write "digit pairs, optional separator". The model
  writes two hexadecimal digits for every byte, in the stream's letter case, with the
  fill character between two bytes unless it is NUL.
\<close>

definition digit_pair :: "bool \<Rightarrow> 8 word \<Rightarrow> string" where
  "digit_pair upper b = [digit_char upper (unat b div 16), digit_char upper (unat b mod 16)]"

fun digit_pairs :: "bool \<Rightarrow> char \<Rightarrow> 8 word list \<Rightarrow> string" where
  "digit_pairs upper sep [] = []"
| "digit_pairs upper sep [b] = digit_pair upper b"
| "digit_pairs upper sep (b # bs) =
     digit_pair upper b @ (if sep = CHR 0x00 then [] else [sep]) @ digit_pairs upper sep bs"

definition byte_dump :: "ostream \<Rightarrow> arg \<Rightarrow> ostream" where
  "byte_dump os v =
     os\<lparr>os_buf := os_buf os @ digit_pairs (os_uppercase os) (os_fill os) (arg_bytes v)\<rparr>"

text \<open>
  The collaborators at which the closed examples below are evaluated. The byte dump is
  the one above. A character below 128 converts to itself and a pointer is written as
  \<open>0x\<close> and its hexadecimal digits. The rendering of floating point numbers is outside
  the model: no example writes one, and this instance writes nothing for them.
\<close>

definition example_ext :: ext where
  "example_ext =
     \<lparr>hex_dumper = byte_dump,
      convert_wchar = (\<lambda>w. [char_of (unat w)]),
      put_pointer = (\<lambda>os a. insert_text os (''0x'' @ digits 16 False (unat a))),
      put_floating = (\<lambda>os v. os),
      integer_part = (\<lambda>v. 0)\<rparr>"

section \<open>Values and texts of arguments\<close>

text \<open>
  The value of a character or integer argument. The value of a floating point argument
  is not interpreted by the model; the function gives 0 for it.
\<close>

fun int_value :: "scalar \<Rightarrow> int" where
  "int_value (C_char v) = sint v"
| "int_value (C_schar v) = sint v"
| "int_value (C_uchar v) = uint v"
| "int_value (C_short v) = sint v"
| "int_value (C_ushort v) = uint v"
| "int_value (C_int v) = sint v"
| "int_value (C_uint v) = uint v"
| "int_value (C_longlong v) = sint v"
| "int_value (C_ulonglong v) = uint v"
| "int_value (C_float v) = 0"
| "int_value (C_double v) = 0"

text \<open>The decimal text of an integer: a minus sign when it is negative, then its digits.\<close>

definition decimal_text :: "int \<Rightarrow> string" where
  "decimal_text i =
     (if i < 0 then CHR ''-'' # digits 10 False (nat (- i)) else digits 10 False (nat i))"

text \<open>
  The text of one element: the element is converted to \<open>unsigned\<close> and written as a
  number in the base of the stream.
\<close>

definition element_text :: "ext \<Rightarrow> ostream \<Rightarrow> scalar \<Rightarrow> string" where
  "element_text X os b = digits (radix (os_base os)) (os_uppercase os) (unat (to_32 X b))"

text \<open>
  The text of a further element with what precedes it: the fill character, padded to
  the field width, and the element; without a fill character the element is padded.
\<close>

definition next_element_text :: "ext \<Rightarrow> ostream \<Rightarrow> scalar \<Rightarrow> string" where
  "next_element_text X os b =
     (if os_fill os = CHR 0x00 then padded os (element_text X os b)
      else padded os [os_fill os] @ element_text X os b)"

definition elements_text :: "ext \<Rightarrow> ostream \<Rightarrow> scalar list \<Rightarrow> string" where
  "elements_text X os buf =
     (case buf of
        [] \<Rightarrow> []
      | b # bs \<Rightarrow> padded os (element_text X os b) @ concat (map (next_element_text X os) bs))"

section \<open>The grammar of format strings\<close>

text \<open>
  The grammar of section 6 of the spec, \<open>%[flags][width][.precision][length-modifiers]type\<close>,
  as the text of a specifier is written: \<open>-\<close> or nothing; \<open>+\<close>, a space or nothing; \<open>0\<close>, a
  comma or nothing; the digits of the width; a dot and the digits of the precision, or
  nothing; size characters from \<open>qhlLzjt\<close>, and the marker \<open>I64\<close> or nothing; the type
  character.
\<close>

record written_spec =
  w_left :: bool
  w_sign :: string
  w_pad :: string
  w_width :: string
  w_precision :: "string option"
  w_size :: string
  w_I64 :: bool
  w_type :: char

definition spec_text :: "written_spec \<Rightarrow> string" where
  "spec_text ws =
     (if w_left ws then ''-'' else []) @ w_sign ws @ w_pad ws @ w_width ws
     @ (case w_precision ws of None \<Rightarrow> [] | Some ds \<Rightarrow> CHR ''.'' # ds)
     @ w_size ws @ (if w_I64 ws then ''I64'' else []) @ [w_type ws]"

text \<open>
  A character that can stand as the type character: any character but \<open>%\<close>, the flags,
  the pad characters, the digits, the dot, the size characters, \<open>I\<close>, white space and
  NUL. The characters that \<open>applytype\<close> knows are among them, and so are unknown ones
  such as \<open>Q\<close>.
\<close>

definition is_type_char :: "char \<Rightarrow> bool" where
  "is_type_char t =
     (t \<notin> set ''%-+ 0,.qhlLzjtI'' \<and> \<not> isdigit t \<and> \<not> isspace t \<and> t \<noteq> CHR 0x00)"

text \<open>
  The parts of a written specifier are well formed, and read back as they were written:
  a width written without a pad character does not start with \<open>0\<close>.
\<close>

definition valid_spec :: "written_spec \<Rightarrow> bool" where
  "valid_spec ws =
     (w_sign ws \<in> set [[], ''+'', '' ''] \<and> w_pad ws \<in> set [[], ''0'', '','']
      \<and> list_all isdigit (w_width ws)
      \<and> (if w_pad ws = [] then take 1 (w_width ws) \<noteq> ''0'' else True)
      \<and> (case w_precision ws of None \<Rightarrow> True | Some ds \<Rightarrow> list_all isdigit ds)
      \<and> list_all (\<lambda>c. c \<in> set ''qhlLzjt'') (w_size ws)
      \<and> is_type_char (w_type ws))"

text \<open>The number that \<open>format\<close> takes from the digits of a width or a precision.\<close>

definition number_of :: "string \<Rightarrow> int" where
  "number_of ds = (if ds = [] then 0 else long_to_int (min LONG_MAX (decimal_value ds)))"

text \<open>What a written specifier means: the values of the local variables of \<open>format\<close>.\<close>

definition spec_meaning :: "written_spec \<Rightarrow> convspec" where
  "spec_meaning ws =
     \<lparr>leftadjust = w_left ws,
      forcesign = (w_sign ws = ''+''),
      padchar = (if w_pad ws = ''0'' then CHR ''0''
                 else if w_pad ws = '','' then CHR '','' else CHR '' ''),
      width = number_of (w_width ws),
      havewidth = (w_width ws \<noteq> []),
      precision = (case w_precision ws of None \<Rightarrow> 0 | Some ds \<Rightarrow> number_of ds),
      haveprecision = (case w_precision ws of None \<Rightarrow> False | Some ds \<Rightarrow> ds \<noteq> []),
      type = w_type ws\<rparr>"

text \<open>
  A format string as a sequence of pieces: literal characters other than \<open>%\<close>, the
  escape \<open>%%\<close>, and specifiers.
\<close>

datatype piece = Literal char | Percent | Specifier written_spec

fun valid_piece :: "piece \<Rightarrow> bool" where
  "valid_piece (Literal c) = (c \<noteq> CHR ''%'')"
| "valid_piece Percent = True"
| "valid_piece (Specifier ws) = valid_spec ws"

fun piece_text :: "piece \<Rightarrow> string" where
  "piece_text (Literal c) = [c]"
| "piece_text Percent = ''%%''"
| "piece_text (Specifier ws) = CHR ''%'' # spec_text ws"

definition format_text :: "piece list \<Rightarrow> string" where
  "format_text ps = concat (map piece_text ps)"

text \<open>A piece with the size characters and the marker \<open>I64\<close> of its specifier removed.\<close>

fun without_size :: "piece \<Rightarrow> piece" where
  "without_size (Specifier ws) = Specifier (ws\<lparr>w_size := [], w_I64 := False\<rparr>)"
| "without_size p = p"

text \<open>A piece whose type character, if it has one, is known to \<open>applytype\<close>.\<close>

fun known_piece :: "piece \<Rightarrow> bool" where
  "known_piece (Specifier ws) = (w_type ws \<in> set ''biduoxXfFgGaAeEcsp'')"
| "known_piece _ = True"

text \<open>\<open>starts P s\<close>: the string \<open>s\<close> has a first character, and \<open>P\<close> holds of it.\<close>

definition starts :: "(char \<Rightarrow> bool) \<Rightarrow> string \<Rightarrow> bool" where
  "starts P s = (case s of [] \<Rightarrow> False | c # r \<Rightarrow> P c)"

text \<open>The characters that follow the width and the precision in a specifier.\<close>

definition tail_char :: "char \<Rightarrow> bool" where
  "tail_char c = (c \<in> set ''qhlLzjtI'' \<or> is_type_char c)"

section \<open>Counting the specifiers of a format string\<close>

lemma strtol_suffix: "length (snd (strtol p)) \<le> length p"
proof -
  let ?s = "dropWhile isspace p"
  let ?s1 = "case ?s of [] \<Rightarrow> ?s | c # r \<Rightarrow> if c = CHR ''-'' \<or> c = CHR ''+'' then r else ?s"
  have "length (case s of [] \<Rightarrow> s | c # r \<Rightarrow> if c = CHR ''-'' \<or> c = CHR ''+'' then r else s)
        \<le> length s" for s :: string
    by (cases s) simp_all
  then have "length ?s1 \<le> length ?s" .
  moreover have "length ?s \<le> length p"
    by (rule length_dropWhile_le)
  moreover have "length (dropWhile isdigit ?s1) \<le> length ?s1"
    by (rule length_dropWhile_le)
  ultimately have "length (dropWhile isdigit ?s1) \<le> length p"
    by linarith
  then show ?thesis
    by (simp add: strtol_def Let_def)
qed

lemma parse_width_suffix: "parse_width p = (w, hw, q) \<Longrightarrow> length q \<le> length p"
  using strtol_suffix [of p] by (auto simp: parse_width_def split: prod.splits)

lemma parse_precision_suffix: "parse_precision p = (w, hw, q) \<Longrightarrow> length q \<le> length p"
proof (cases p)
  case Nil
  assume "parse_precision p = (w, hw, q)"
  then show ?thesis
    using Nil by (simp add: parse_precision_def)
next
  case (Cons c r)
  assume "parse_precision p = (w, hw, q)"
  then show ?thesis
    using Cons parse_width_suffix [of r w hw q]
    by (auto simp: parse_precision_def split: if_splits)
qed

lemma skip_size_suffix: "skip_size p = Some q \<Longrightarrow> length q \<le> length p"
  by (induction p) (auto split: if_splits)

lemma skip_I64_suffix: "skip_I64 p = Some q \<Longrightarrow> length q \<le> length p"
  by (cases p) (auto split: if_splits list.splits)

lemma parse_spec_suffix:
  assumes "parse_spec p = Some (sp, q)"
  shows "length q \<le> length p"
proof -
  obtain la p1 where 1: "parse_leftadjust p = (la, p1)"
    by (cases "parse_leftadjust p")
  obtain fs p2 where 2: "parse_forcesign p1 = (fs, p2)"
    by (cases "parse_forcesign p1")
  obtain pc p3 where 3: "parse_padchar p2 = (pc, p3)"
    by (cases "parse_padchar p2")
  obtain w hw p4 where 4: "parse_width p3 = (w, hw, p4)"
    by (cases "parse_width p3")
  obtain pr hp p5 where 5: "parse_precision p4 = (pr, hp, p5)"
    by (cases "parse_precision p4")
  obtain p6 where 6: "skip_size p5 = Some p6"
    using assms 1 2 3 4 5 by (auto simp: parse_spec_def split: option.splits)
  obtain p7 where 7: "skip_I64 p6 = Some p7"
    using assms 1 2 3 4 5 6 by (auto simp: parse_spec_def split: option.splits)
  obtain t p8 where 8: "parse_type p7 = (t, p8)"
    by (cases "parse_type p7")
  have q: "q = p8"
    using assms 1 2 3 4 5 6 7 8 by (simp add: parse_spec_def)
  have "length p1 \<le> length p"
    using 1 by (auto simp: parse_leftadjust_def split: list.splits if_splits)
  moreover have "length p2 \<le> length p1"
    using 2 by (auto simp: parse_forcesign_def split: list.splits if_splits)
  moreover have "length p3 \<le> length p2"
    using 3 by (auto simp: parse_padchar_def split: list.splits if_splits)
  moreover have "length p4 \<le> length p3"
    using 4 by (rule parse_width_suffix)
  moreover have "length p5 \<le> length p4"
    using 5 by (rule parse_precision_suffix)
  moreover have "length p6 \<le> length p5"
    using 6 by (rule skip_size_suffix)
  moreover have "length p7 \<le> length p6"
    using 7 by (rule skip_I64_suffix)
  moreover have "length p8 \<le> length p7"
    using 8 by (auto simp: parse_type_def split: list.splits)
  ultimately show ?thesis
    using q by simp
qed

text \<open>
  The number of conversion specifiers of a format string, as the scan delimits them: a
  \<open>%\<close> that is not followed by a second one opens a specifier, which the parser reads
  to its end; the count goes on behind it. A specifier at which the parser leaves the
  string is the last one counted.
\<close>

function count_specs :: "string \<Rightarrow> nat" where
  "count_specs [] = 0"
| "count_specs (c # p) =
     (if c = CHR ''%''
      then (case p of
              [] \<Rightarrow> 1
            | c1 # p1 \<Rightarrow>
                if c1 = CHR ''%'' then count_specs p1
                else (case parse_spec p of
                        None \<Rightarrow> 1
                      | Some (sp, q) \<Rightarrow> 1 + count_specs q))
      else count_specs p)"
  by pat_completeness auto
termination
  by (relation "measure length") (auto dest: parse_spec_suffix)

section \<open>Evaluation of concrete calls\<close>

lemma replicate_numeral_eval:
  "replicate (numeral k) x = x # replicate (pred_numeral k) x"
  by (simp add: numeral_eq_Suc)


lemmas parse_eval =
  parse_spec_def parse_leftadjust_def parse_forcesign_def parse_padchar_def parse_width_def
  parse_precision_def parse_type_def strtol_def isspace_def isdigit_def digit_value_def
  decimal_value_def LONG_MAX_def LONG_MIN_def long_to_int_def strchr_def

lemmas stream_eval =
  insert_text_def padded_def put_char_def copyfmt_def put_unsigned_def put_signed_def
  signed_text_def radix_def digit_char_def digits.simps put_container_def char_of_eq_iff
  replicate_numeral_eval

lemmas format_eval =
  stringformat_def stringstream_def conversion_def applytype_def applytype_switch_def
  is_upper_def use_formatting_def emit_def hex_dump_data_def


section \<open>Decimal digits and \<open>strtol\<close>\<close>

lemma digit_char_decimal:
  assumes "d < 10"
  shows "isdigit (digit_char u d)" and "digit_value (digit_char u d) = int d"
    and "\<not> isspace (digit_char u d)" and "digit_char u d \<noteq> CHR ''-''"
    and "digit_char u d \<noteq> CHR ''+''" and "digit_char u d \<noteq> CHR '',''"
    and "0 < d \<Longrightarrow> digit_char u d \<noteq> CHR ''0''"
proof -
  have c: "of_char (digit_char u d) = 48 + d"
    using assms by (simp add: digit_char_def)
  show "isdigit (digit_char u d)"
    using assms by (simp add: isdigit_def c)
  show "digit_value (digit_char u d) = int d"
    by (simp add: digit_value_def c)
  have ne: "digit_char u d \<noteq> x" if "(of_char x :: nat) \<noteq> 48 + d" for x
    using that c by auto
  show "\<not> isspace (digit_char u d)"
    using ne [of "CHR '' ''"] ne [of "CHR 0x09"] ne [of "CHR 0x0A"] ne [of "CHR 0x0B"]
      ne [of "CHR 0x0C"] ne [of "CHR 0x0D"]
    by (simp add: isspace_def)
  show "digit_char u d \<noteq> CHR ''-''" using ne [of "CHR ''-''"] by simp
  show "digit_char u d \<noteq> CHR ''+''" using ne [of "CHR ''+''"] by simp
  show "digit_char u d \<noteq> CHR '',''" using ne [of "CHR '',''"] by simp
  show "digit_char u d \<noteq> CHR ''0''" if "0 < d" using ne [of "CHR ''0''"] that by simp
qed

lemma digits_nonempty: "digits b u n \<noteq> []"
  by (subst digits.simps) simp

lemma digits_decimal_all: "list_all isdigit (digits 10 u n)"
proof (induction "10::nat" u n rule: digits.induct)
  case (1 u n)
  show ?case
  proof (cases "n < 10")
    case True
    then show ?thesis
      by (subst digits.simps) (simp add: digit_char_decimal(1))
  next
    case False
    then have "list_all isdigit (digits 10 u (n div 10))"
      using 1 by simp
    then show ?thesis
      using False by (subst digits.simps) (simp add: digit_char_decimal(1))
  qed
qed

lemma decimal_value_snoc:
  "decimal_value (ds @ [c]) = 10 * decimal_value ds + digit_value c"
  by (simp add: decimal_value_def)

lemma decimal_value_digits: "decimal_value (digits 10 u n) = int n"
proof (induction "10::nat" u n rule: digits.induct)
  case (1 u n)
  show ?case
  proof (cases "n < 10")
    case True
    then show ?thesis
      by (subst digits.simps) (simp add: decimal_value_def digit_char_decimal(2))
  next
    case False
    then have "decimal_value (digits 10 u (n div 10)) = int (n div 10)"
      using 1 by simp
    then show ?thesis
      using False
      by (subst digits.simps) (simp add: decimal_value_snoc digit_char_decimal(2) zdiv_int
          zmod_int)
  qed
qed


lemma isdigit_not_space_sign:
  assumes "isdigit c"
  shows "\<not> isspace c" and "c \<noteq> CHR ''-''" and "c \<noteq> CHR ''+''"
  using assms by (auto simp: isdigit_def isspace_def)

text \<open>
  \<open>strtol\<close> on a digit string \<open>ds\<close> followed by \<open>r\<close>, where \<open>r\<close> does not start with a
  digit: the value of \<open>ds\<close>, and \<open>r\<close> is left.
\<close>

lemma takeWhile_digits:
  assumes "list_all isdigit ds" and "takeWhile isdigit r = []"
  shows "takeWhile isdigit (ds @ r) = ds" and "dropWhile isdigit (ds @ r) = r"
proof -
  have a: "\<And>x. x \<in> set ds \<Longrightarrow> isdigit x"
    using assms(1) by (simp add: list_all_iff)
  show "takeWhile isdigit (ds @ r) = ds"
    using a assms(2) by (simp add: takeWhile_append2)
  have "dropWhile isdigit r = r"
    using assms(2) by (cases r) (auto split: if_splits)
  then show "dropWhile isdigit (ds @ r) = r"
    using a by (simp add: dropWhile_append2)
qed

lemma strtol_digits:
  assumes "list_all isdigit ds" and "ds \<noteq> []" and "takeWhile isdigit r = []"
  shows "strtol (ds @ r) = (min LONG_MAX (decimal_value ds), r)"
proof -
  obtain c ds' where ds: "ds = c # ds'"
    using assms(2) by (cases ds) auto
  then have c: "isdigit c"
    using assms(1) by simp
  note n = isdigit_not_space_sign [OF c]
  have "takeWhile isdigit (c # ds' @ r) = c # ds'" "dropWhile isdigit (c # ds' @ r) = r"
    using takeWhile_digits [OF assms(1,3)] ds by simp_all
  then show ?thesis
    using n by (simp add: strtol_def ds Let_def)
qed

lemma strtol_minus_digits:
  assumes "list_all isdigit ds" and "ds \<noteq> []" and "takeWhile isdigit r = []"
  shows "strtol (CHR ''-'' # ds @ r) = (max LONG_MIN (- decimal_value ds), r)"
proof -
  have "takeWhile isdigit (ds @ r) = ds" "dropWhile isdigit (ds @ r) = r"
    using takeWhile_digits [OF assms(1,3)] by simp_all
  then show ?thesis
    using assms(2) by (simp add: strtol_def Let_def isspace_def)
qed

text \<open>
  \<open>strtol\<close> on a string that starts with neither white space, a sign nor a digit
  converts nothing.
\<close>

lemma strtol_nothing:
  assumes "\<not> isspace c" and "c \<noteq> CHR ''-''" and "c \<noteq> CHR ''+''" and "\<not> isdigit c"
  shows "strtol (c # r) = (0, c # r)"
  using assms by (simp add: strtol_def Let_def)

lemma strtol_decimal_text:
  assumes "LONG_MIN \<le> i" and "i \<le> LONG_MAX"
  shows "strtol (decimal_text i) = (i, [])"
proof (cases "i < 0")
  case True
  have "strtol (CHR ''-'' # digits 10 False (nat (- i)) @ [])
        = (max LONG_MIN (- decimal_value (digits 10 False (nat (- i)))), [])"
    by (rule strtol_minus_digits) (simp_all add: digits_decimal_all digits_nonempty)
  then show ?thesis
    using True assms(1) by (simp add: decimal_text_def decimal_value_digits)
next
  case False
  have "strtol (digits 10 False (nat i) @ [])
        = (min LONG_MAX (decimal_value (digits 10 False (nat i))), [])"
    by (rule strtol_digits) (simp_all add: digits_decimal_all digits_nonempty)
  then show ?thesis
    using False assms(2) by (simp add: decimal_text_def decimal_value_digits)
qed



section \<open>The parser reads the grammar\<close>

lemma starts_Cons [simp]: "starts P (c # r) = P c"
  by (simp add: starts_def)

lemma starts_Nil [simp]: "starts P [] = False"
  by (simp add: starts_def)

lemma starts_append: "starts P (a @ b) = (if a = [] then starts P b else starts P a)"
  by (cases a) simp_all

lemma starts_mono: "starts P s \<Longrightarrow> (\<And>c. P c \<Longrightarrow> Q c) \<Longrightarrow> starts Q s"
  by (cases s) simp_all

lemma tail_char_not:
  assumes "tail_char c"
  shows "\<not> isdigit c" and "\<not> isspace c" and "c \<noteq> CHR ''-''" and "c \<noteq> CHR ''+''"
    and "c \<noteq> CHR '' ''" and "c \<noteq> CHR ''0''" and "c \<noteq> CHR '',''" and "c \<noteq> CHR ''.''"
    and "c \<noteq> CHR ''%''" and "c \<noteq> CHR 0x00"
  using assms by (auto simp: tail_char_def is_type_char_def isdigit_def isspace_def)

lemma parse_leftadjust_no:
  "starts (\<lambda>c. c \<noteq> CHR ''-'') s \<Longrightarrow> parse_leftadjust s = (False, s)"
  by (cases s) (simp_all add: parse_leftadjust_def)

lemma parse_forcesign_no:
  "starts (\<lambda>c. c \<noteq> CHR ''+'' \<and> c \<noteq> CHR '' '') s \<Longrightarrow> parse_forcesign s = (False, s)"
  by (cases s) (simp_all add: parse_forcesign_def)

lemma parse_padchar_no:
  "starts (\<lambda>c. c \<noteq> CHR ''0'' \<and> c \<noteq> CHR '','') s \<Longrightarrow> parse_padchar s = (CHR '' '', s)"
  by (cases s) (simp_all add: parse_padchar_def)

lemma parse_precision_no:
  "starts (\<lambda>c. c \<noteq> CHR ''.'') s \<Longrightarrow> parse_precision s = (0, False, s)"
  by (cases s) (simp_all add: parse_precision_def)

lemma takeWhile_isdigit_no: "starts (\<lambda>c. \<not> isdigit c) s \<Longrightarrow> takeWhile isdigit s = []"
  by (cases s) simp_all

text \<open>The width, and likewise the digits of the precision, before a tail character.\<close>

lemma parse_width_digits:
  assumes "list_all isdigit ds" and "starts tail_char r"
  shows "parse_width (ds @ r) = (number_of ds, ds \<noteq> [], r)"
proof (cases "ds = []")
  case True
  obtain c r' where r: "r = c # r'" and c: "tail_char c"
    using assms(2) by (cases r) simp_all
  have "strtol (c # r') = (0, c # r')"
    using tail_char_not [OF c] by (intro strtol_nothing) simp_all
  then show ?thesis
    using True r by (simp add: parse_width_def number_of_def long_to_int_def)
next
  case False
  have "starts (\<lambda>c. \<not> isdigit c) r"
    using assms(2) by (rule starts_mono) (simp add: tail_char_not)
  then have "takeWhile isdigit r = []"
    by (rule takeWhile_isdigit_no)
  then have "strtol (ds @ r) = (min LONG_MAX (decimal_value ds), r)"
    using assms(1) False by (intro strtol_digits)
  then show ?thesis
    using False by (simp add: parse_width_def number_of_def)
qed

lemma skip_size_chars:
  assumes "list_all (\<lambda>c. c \<in> set ''qhlLzjt'') ms" and "starts (\<lambda>c. \<not> strchr ''qhlLzjt'' c) r"
  shows "skip_size (ms @ r) = Some r"
  using assms
proof (induction ms)
  case Nil
  then show ?case by (cases r) simp_all
next
  case (Cons m ms)
  then show ?case by (simp add: strchr_def)
qed

text \<open>
  The parser reads a valid written specifier as what it means, and stops behind its
  type character, whatever follows.
\<close>

lemma parse_spec_text:
  assumes "valid_spec ws"
  shows "parse_spec (spec_text ws @ q) = Some (spec_meaning ws, q)"
proof -
  let ?t = "w_type ws"
  let ?R6 = "?t # q"
  let ?R5 = "(if w_I64 ws then ''I64'' else []) @ ?R6"
  let ?R4 = "w_size ws @ ?R5"
  let ?R3 = "(case w_precision ws of None \<Rightarrow> [] | Some ds \<Rightarrow> CHR ''.'' # ds) @ ?R4"
  let ?R2 = "w_width ws @ ?R3"
  let ?R1 = "w_pad ws @ ?R2"
  let ?R0 = "w_sign ws @ ?R1"
  have v: "w_sign ws \<in> set [[], ''+'', '' '']" "w_pad ws \<in> set [[], ''0'', '','']"
    "list_all isdigit (w_width ws)"
    "w_pad ws = [] \<Longrightarrow> take 1 (w_width ws) \<noteq> ''0''"
    "case w_precision ws of None \<Rightarrow> True | Some ds \<Rightarrow> list_all isdigit ds"
    "list_all (\<lambda>c. c \<in> set ''qhlLzjt'') (w_size ws)" "is_type_char ?t"
    using assms by (simp_all add: valid_spec_def split: if_splits)
  have t: "tail_char ?t"
    using v(7) by (simp add: tail_char_def)
  have tI: "?t \<noteq> CHR ''I''" "\<not> strchr ''qhlLzjt'' ?t"
    using v(7) by (auto simp: is_type_char_def strchr_def)
  \<comment> \<open>the type character and the marker\<close>
  have s8: "parse_type ?R6 = (?t, q)"
    by (simp add: parse_type_def)
  have s7: "skip_I64 ?R5 = Some ?R6"
    using tI(1) by simp
  have h5: "starts tail_char ?R5"
    using t by (simp add: tail_char_def)
  have h5': "starts (\<lambda>c. \<not> strchr ''qhlLzjt'' c) ?R5"
    using tI(2) by (simp add: strchr_def)
  \<comment> \<open>the size characters\<close>
  have s6: "skip_size ?R4 = Some ?R5"
    using v(6) h5' by (rule skip_size_chars)
  have h4: "starts tail_char ?R4"
  proof (cases "w_size ws")
    case Nil
    then show ?thesis using h5 by simp
  next
    case (Cons m ms)
    then have "m \<in> set ''qhlLzjt''"
      using v(6) by simp
    then show ?thesis
      using Cons by (auto simp: tail_char_def)
  qed
  \<comment> \<open>the precision\<close>
  have s5: "parse_precision ?R3
            = (precision (spec_meaning ws), haveprecision (spec_meaning ws), ?R4)"
  proof (cases "w_precision ws")
    case None
    have "starts (\<lambda>c. c \<noteq> CHR ''.'') ?R4"
      using h4 by (rule starts_mono) (simp add: tail_char_not)
    then show ?thesis
      using None by (simp add: parse_precision_no spec_meaning_def)
  next
    case (Some ds)
    then have "list_all isdigit ds"
      using v(5) by simp
    then have "parse_width (ds @ ?R4) = (number_of ds, ds \<noteq> [], ?R4)"
      using h4 by (rule parse_width_digits)
    then show ?thesis
      using Some by (simp add: parse_precision_def spec_meaning_def)
  qed
  have h3: "starts (\<lambda>c. c = CHR ''.'' \<or> tail_char c) ?R3"
  proof (cases "w_precision ws")
    case None
    then show ?thesis
      using h4 by (simp add: starts_mono)
  next
    case (Some ds)
    then show ?thesis by simp
  qed
  \<comment> \<open>the width\<close>
  have s4: "parse_width ?R2 = (number_of (w_width ws), w_width ws \<noteq> [], ?R3)"
  proof (cases "w_precision ws")
    case None
    then show ?thesis
      using parse_width_digits [OF v(3) h4] by simp
  next
    case (Some ds)
    \<comment> \<open>the dot ends the digits of the width like a tail character\<close>
    show ?thesis
    proof (cases "w_width ws = []")
      case True
      have "strtol (CHR ''.'' # ds @ ?R4) = (0, CHR ''.'' # ds @ ?R4)"
        by (rule strtol_nothing) (simp_all add: isspace_def isdigit_def)
      then show ?thesis
        using True Some by (simp add: parse_width_def number_of_def long_to_int_def)
    next
      case False
      have "takeWhile isdigit (CHR ''.'' # ds @ ?R4) = []"
        by (simp add: isdigit_def)
      then have "strtol (w_width ws @ CHR ''.'' # ds @ ?R4)
                 = (min LONG_MAX (decimal_value (w_width ws)), CHR ''.'' # ds @ ?R4)"
        using v(3) False by (intro strtol_digits)
      then show ?thesis
        using False Some by (simp add: parse_width_def number_of_def)
    qed
  qed
  have h2: "starts (\<lambda>c. (isdigit c \<and> (w_pad ws = [] \<longrightarrow> c \<noteq> CHR ''0''))
                         \<or> c = CHR ''.'' \<or> tail_char c) ?R2"
  proof (cases "w_width ws")
    case Nil
    then show ?thesis
      using h3 by (simp add: starts_mono)
  next
    case (Cons d ds)
    then show ?thesis
      using v(3,4) by auto
  qed
  \<comment> \<open>the flags\<close>
  have s3: "parse_padchar ?R1 = (padchar (spec_meaning ws), ?R2)"
  proof (cases "w_pad ws = []")
    case True
    have "starts (\<lambda>c. c \<noteq> CHR ''0'' \<and> c \<noteq> CHR '','') ?R2"
      using h2
      by (rule starts_mono) (insert True, auto dest: tail_char_not simp: isdigit_def)
    then show ?thesis
      using True by (simp add: parse_padchar_no spec_meaning_def)
  next
    case False
    then show ?thesis
      using v(2) by (auto simp: parse_padchar_def spec_meaning_def)
  qed
  have h1: "starts (\<lambda>c. c \<noteq> CHR ''-'' \<and> c \<noteq> CHR ''+'' \<and> c \<noteq> CHR '' '' \<and> c \<noteq> CHR ''%'') ?R1"
  proof (cases "w_pad ws = []")
    case True
    have "starts (\<lambda>c. c \<noteq> CHR ''-'' \<and> c \<noteq> CHR ''+'' \<and> c \<noteq> CHR '' '' \<and> c \<noteq> CHR ''%'') ?R2"
      using h2 by (rule starts_mono) (auto dest: tail_char_not simp: isdigit_def)
    then show ?thesis
      using True by simp
  next
    case False
    then show ?thesis
      using v(2) by auto
  qed
  have s2: "parse_forcesign ?R0 = (forcesign (spec_meaning ws), ?R1)"
  proof (cases "w_sign ws = []")
    case True
    have "starts (\<lambda>c. c \<noteq> CHR ''+'' \<and> c \<noteq> CHR '' '') ?R1"
      using h1 by (rule starts_mono) simp
    then show ?thesis
      using True by (simp add: parse_forcesign_no spec_meaning_def)
  next
    case False
    then show ?thesis
      using v(1) by (auto simp: parse_forcesign_def spec_meaning_def)
  qed
  have h0: "starts (\<lambda>c. c \<noteq> CHR ''-'' \<and> c \<noteq> CHR ''%'') ?R0"
  proof (cases "w_sign ws = []")
    case True
    then show ?thesis
      using h1 by (simp add: starts_mono)
  next
    case False
    then show ?thesis
      using v(1) by auto
  qed
  have s1: "parse_leftadjust ((if w_left ws then ''-'' else []) @ ?R0) = (w_left ws, ?R0)"
  proof (cases "w_left ws")
    case True
    then show ?thesis by (simp add: parse_leftadjust_def)
  next
    case False
    have "starts (\<lambda>c. c \<noteq> CHR ''-'') ?R0"
      using h0 by (rule starts_mono) simp
    then show ?thesis
      using False by (simp add: parse_leftadjust_no)
  qed
  have whole: "spec_text ws @ q = (if w_left ws then ''-'' else []) @ ?R0"
    by (simp add: spec_text_def)
  have "parse_spec ((if w_left ws then ''-'' else []) @ ?R0) =
          Some (\<lparr>leftadjust = w_left ws, forcesign = forcesign (spec_meaning ws),
                  padchar = padchar (spec_meaning ws), width = number_of (w_width ws),
                  havewidth = (w_width ws \<noteq> []), precision = precision (spec_meaning ws),
                  haveprecision = haveprecision (spec_meaning ws), type = ?t\<rparr>, q)"
    unfolding parse_spec_def s1 prod.case s2 s3 s4 s5 s6 s7 s8 option.case ..
  moreover have "\<lparr>leftadjust = w_left ws, forcesign = forcesign (spec_meaning ws),
                  padchar = padchar (spec_meaning ws), width = number_of (w_width ws),
                  havewidth = (w_width ws \<noteq> []), precision = precision (spec_meaning ws),
                  haveprecision = haveprecision (spec_meaning ws), type = ?t\<rparr> = spec_meaning ws"
    by (simp add: spec_meaning_def)
  ultimately show ?thesis
    using whole by simp
qed

text \<open>The text of a specifier starts with a character other than \<open>%\<close>.\<close>

lemma spec_text_starts:
  assumes "valid_spec ws"
  shows "\<exists>c r. spec_text ws @ q = c # r \<and> c \<noteq> CHR ''%''"
proof -
  have "parse_spec (spec_text ws @ q) = Some (spec_meaning ws, q)"
    using assms by (rule parse_spec_text)
  obtain c r where cr: "spec_text ws @ q = c # r"
    by (cases "spec_text ws @ q") (simp_all add: spec_text_def)
  have "c \<noteq> CHR ''%''"
  proof
    assume "c = CHR ''%''"
    then have "parse_spec (spec_text ws @ q)
               = Some (\<lparr>leftadjust = False, forcesign = False, padchar = CHR '' '', width = 0,
                         havewidth = False, precision = 0, haveprecision = False,
                         type = CHR ''%''\<rparr>, r)"
      by (simp add: cr parse_eval)
    then have "w_type ws = CHR ''%''"
      using parse_spec_text [OF assms, of q] by (simp add: spec_meaning_def)
    then show False
      using assms by (simp add: valid_spec_def is_type_char_def)
  qed
  then show ?thesis
    using cr by simp
qed

section \<open>\<open>format\<close> piece by piece\<close>

lemma format_Literal:
  "c \<noteq> CHR ''%'' \<Longrightarrow> format X os (c # rest) args = format X (put_char os c) rest args"
  by (cases args) simp_all

lemma format_Percent:
  "format X os (CHR ''%'' # CHR ''%'' # rest) args
   = format X (put_char os (CHR ''%'')) rest args"
  by (cases args) simp_all

lemma format_Specifier:
  assumes "valid_spec ws"
  shows "format X os (CHR ''%'' # spec_text ws @ rest) args =
           (case args of
              [] \<Rightarrow> (Thrown NotEnoughArguments, os)
            | v # args' \<Rightarrow>
                (case applytype os (w_type ws) of
                   None \<Rightarrow> (Thrown UnknownConversionChar, os)
                 | Some os1 \<Rightarrow>
                     format X (emit X (use_formatting os1 (spec_meaning ws)) (w_type ws) v)
                       rest args'))"
proof -
  obtain c r where cr: "spec_text ws @ rest = c # r" and c: "c \<noteq> CHR ''%''"
    using spec_text_starts [OF assms, of rest] by auto
  have p: "parse_spec (c # r) = Some (spec_meaning ws, rest)"
    using parse_spec_text [OF assms, of rest] cr by simp
  have t: "type (spec_meaning ws) = w_type ws"
    by (simp add: spec_meaning_def)
  show ?thesis
  proof (cases args)
    case Nil
    then show ?thesis
      using c by (simp add: cr)
  next
    case (Cons v args')
    then show ?thesis
      using c p t by (simp add: cr conversion_def split: option.splits)
  qed
qed

lemma spec_meaning_without_size:
  "spec_meaning (ws\<lparr>w_size := ms, w_I64 := i\<rparr>) = spec_meaning ws"
  by (simp add: spec_meaning_def)

lemma valid_spec_without_size:
  "valid_spec ws \<Longrightarrow> valid_spec (ws\<lparr>w_size := [], w_I64 := False\<rparr>)"
  by (simp add: valid_spec_def split: if_splits)

lemma format_without_size:
  assumes "list_all valid_piece ps"
  shows "format X os (format_text ps @ rest) args
         = format X os (format_text (map without_size ps) @ rest) args"
  using assms
proof (induction ps arbitrary: os args)
  case Nil
  show ?case by (simp add: format_text_def)
next
  case (Cons p ps)
  then have IH: "\<And>os args. format X os (format_text ps @ rest) args
                  = format X os (format_text (map without_size ps) @ rest) args"
    by simp
  show ?case
  proof (cases p)
    case (Literal c)
    then have "c \<noteq> CHR ''%''"
      using Cons.prems by simp
    then show ?thesis
      using Literal IH by (simp add: format_text_def format_Literal)
  next
    case Percent
    then show ?thesis
      using IH by (simp add: format_text_def format_Percent del: format.simps)
  next
    case (Specifier ws)
    then have v: "valid_spec ws"
      using Cons.prems by simp
    note v' = valid_spec_without_size [OF v]
    have "format X os (CHR ''%'' # spec_text ws @ format_text ps @ rest) args
          = format X os (CHR ''%'' # spec_text (ws\<lparr>w_size := [], w_I64 := False\<rparr>)
               @ format_text (map without_size ps) @ rest) args"
      unfolding format_Specifier [OF v] format_Specifier [OF v']
      using IH by (simp add: spec_meaning_def split: list.splits option.splits)
    then show ?thesis
      using Specifier by (simp add: format_text_def)
  qed
qed

lemma applytype_switch_known:
  "case applytype_switch os t of
     None \<Rightarrow> t \<notin> set ''biduoxXfFgGaAeEcsp''
   | Some os1 \<Rightarrow> True"
  by (simp add: applytype_switch_def)

lemma applytype_known:
  assumes "t \<in> set ''biduoxXfFgGaAeEcsp''"
  shows "\<exists>os1. applytype os t = Some os1"
proof (cases "applytype_switch os t")
  case None
  then show ?thesis
    using applytype_switch_known [where os = os and t = t] assms by simp
next
  case (Some os0)
  then show ?thesis
    by (simp add: applytype_def)
qed

text \<open>
  A format string written by the grammar with known type characters is scanned to its
  end or to the first specifier without an argument.
\<close>

lemma format_text_no_parse_error:
  assumes "list_all valid_piece ps" and "list_all known_piece ps"
  shows "fst (format X os (format_text ps) args) \<noteq> Thrown UnknownConversionChar
         \<and> fst (format X os (format_text ps) args) \<noteq> PastEnd"
  using assms
proof (induction ps arbitrary: os args)
  case Nil
  show ?case
    by (cases args) (simp_all add: format_text_def)
next
  case (Cons p ps)
  then have IH: "\<And>os args. fst (format X os (format_text ps) args) \<noteq> Thrown UnknownConversionChar
                  \<and> fst (format X os (format_text ps) args) \<noteq> PastEnd"
    by simp
  show ?case
  proof (cases p)
    case (Literal c)
    then have "c \<noteq> CHR ''%''"
      using Cons.prems by simp
    then show ?thesis
      using Literal IH by (simp add: format_text_def format_Literal)
  next
    case Percent
    then show ?thesis
      using IH by (simp add: format_text_def format_Percent del: format.simps)
  next
    case (Specifier ws)
    then have v: "valid_spec ws" and k: "w_type ws \<in> set ''biduoxXfFgGaAeEcsp''"
      using Cons.prems by simp_all
    have t: "format_text (p # ps) = CHR ''%'' # spec_text ws @ format_text ps"
      using Specifier by (simp add: format_text_def)
    show ?thesis
    proof (cases args)
      case Nil
      then show ?thesis
        unfolding t format_Specifier [OF v] by simp
    next
      case (Cons v args')
      obtain os1 where "applytype os (w_type ws) = Some os1"
        using applytype_known [OF k] by auto
      then show ?thesis
        unfolding t format_Specifier [OF v] using Cons IH by simp
    qed
  qed
qed

section \<open>Integer arguments\<close>

lemma sint_to_long_long:
  "is_integral v \<Longrightarrow> is_signed v \<Longrightarrow> sint (to_long_long X v) = int_value v"
  by (cases v) (simp_all add: sint_up_scast is_up)

lemma unat_negative_long_long:
  fixes w :: "64 word"
  assumes "sint w < 0"
  shows "unat w = nat (2 ^ 64 + sint w)"
proof -
  have "- (2 ^ 63) \<le> sint w"
    using sint_ge [of w] by simp
  then have "sint w mod 2 ^ 64 = 2 ^ 64 + sint w"
    using assms by (simp add: int_mod_pos_eq [where q = "-1"])
  then have "uint w = 2 ^ 64 + sint w"
    by (simp add: uint_sint [of w] take_bit_eq_mod)
  then show ?thesis
    by (simp add: unat_eq_nat_uint)
qed

text \<open>A specifier that is \<open>%\<close> and an integer type character, with one argument.\<close>

lemma format_one_int:
  assumes "t \<in> set ''iduoxX''"
  shows "stringformat X [CHR ''%'', t] [Scalar v]
         = Returns (os_buf (output_int X
             (stringstream\<lparr>os_base := (if t \<in> set ''idu'' then Dec
                                           else if t = CHR ''o'' then Oct else Hex),
                           os_uppercase := (t = CHR ''X'')\<rparr>) (Scalar v)))"
proof -
  have "t = CHR ''i'' \<or> t = CHR ''d'' \<or> t = CHR ''u'' \<or> t = CHR ''o'' \<or> t = CHR ''x''
        \<or> t = CHR ''X''"
    using assms by auto
  then show ?thesis
    by (elim disjE; simp only:; simp add: parse_eval format_eval del: output_int.simps)
qed

lemma format_percent_d:
  "stringformat X ''%d'' [Scalar (C_int n)] = Returns (decimal_text (sint n))"
proof -
  have "sint (scast n :: 64 word) = sint n"
    by (simp add: sint_up_scast is_up)
  then show ?thesis
    using format_one_int [of "CHR ''d''" X "C_int n"]
    by (simp add: put_signed_def signed_text_def insert_text_def padded_def stringstream_def
        decimal_text_def)
qed



section \<open>Arguments and specifiers\<close>

lemma format0_count:
  "(fst (format0 os p) = Returned \<and> count_specs p = 0)
   \<or> (fst (format0 os p) = Thrown NotEnoughArguments \<and> 0 < count_specs p)"
proof (induction os p rule: format0.induct)
  case (1 os)
  show ?case by simp
next
  case (2 os c p)
  show ?case
  proof (cases "c = CHR ''%''")
    case False
    then show ?thesis
      using 2(2) by simp
  next
    case True
    show ?thesis
    proof (cases p)
      case Nil
      then show ?thesis
        using True by simp
    next
      case (Cons c1 p1)
      show ?thesis
      proof (cases "c1 = CHR ''%''")
        case True
        then show ?thesis
          using 2(1) [OF \<open>c = CHR ''%''\<close> Cons True] \<open>c = CHR ''%''\<close> Cons by simp
      next
        case False
        then show ?thesis
          using \<open>c = CHR ''%''\<close> Cons by (simp split: option.splits)
      qed
    qed
  qed
qed

lemma format_count:
  "(fst (format X os p args) = Returned \<and> count_specs p = length args)
   \<or> (fst (format X os p args) = Thrown NotEnoughArguments \<and> length args < count_specs p)
   \<or> (fst (format X os p args) = Thrown TooManyArguments \<and> count_specs p < length args)
   \<or> fst (format X os p args) = Thrown UnknownConversionChar
   \<or> fst (format X os p args) = PastEnd"
proof (induction X os p args rule: format.induct)
  case (1 X os p)
  show ?case
    using format0_count [of os p] by auto
next
  case (2 X os v args)
  show ?case by simp
next
  case (3 X os c p v args)
  show ?case
  proof (cases "c = CHR ''%''")
    case False
    then show ?thesis
      using 3(4) by simp
  next
    case True
    note c = True
    show ?thesis
    proof (cases p)
      case Nil
      then show ?thesis
        using c by (simp add: conversion_def parse_eval)
    next
      case (Cons c1 p1)
      show ?thesis
      proof (cases "c1 = CHR ''%''")
        case True
        then show ?thesis
          using 3(2) [OF c Cons True] c Cons by simp
      next
        case False
        note c1 = False
        show ?thesis
        proof (cases "conversion X os p v")
          case (Inl st)
          then have "st = PastEnd \<or> st = Thrown UnknownConversionChar"
            by (auto simp: conversion_def split: option.splits)
          then show ?thesis
            using Inl c c1 Cons by auto
        next
          case (Inr r)
          obtain os1 q where r: "r = (os1, q)"
            by (cases r)
          obtain sp where sp: "parse_spec p = Some (sp, q)"
            using Inr r by (auto simp: conversion_def split: option.splits)
          have f: "format X os (c # p) (v # args) = format X os1 q args"
            using Inr r c c1 Cons by simp
          have n: "count_specs (c # p) = 1 + count_specs q"
            using sp c c1 Cons by simp
          show ?thesis
            unfolding f n
            using 3(3) [OF c Cons c1 Inr [unfolded r] refl] by auto
        qed
      qed
    qed
  qed
qed

text \<open>
  C1, as the code has it. Take a call that ends neither with UnknownConversionChar nor
  by reading past the end of the format string; every call is such whose format string
  is written by the grammar with type characters that \<open>applytype\<close> knows. It succeeds
  exactly when the number of specifiers equals the number of arguments, raises
  NotEnoughArguments exactly when there are fewer arguments, and raises
  TooManyArguments exactly when there are more. NotEnoughArguments is raised as soon
  as a \<open>%\<close> that is not followed by a second one is met with no argument left, and
  TooManyArguments as soon as the format string is exhausted with an argument left.
\<close>

theorem argument_count:
  assumes "(fmt = format_text ps \<and> list_all valid_piece ps \<and> list_all known_piece ps)
           \<or> (fst (format X os fmt args) \<noteq> Thrown UnknownConversionChar
               \<and> fst (format X os fmt args) \<noteq> PastEnd)"
  shows "(fst (format X os fmt args) = Returned \<longleftrightarrow> count_specs fmt = length args)
         \<and> (fst (format X os fmt args) = Thrown NotEnoughArguments
              \<longleftrightarrow> length args < count_specs fmt)
         \<and> (fst (format X os fmt args) = Thrown TooManyArguments
              \<longleftrightarrow> count_specs fmt < length args)
         \<and> format X os' [] (v # args') = (Thrown TooManyArguments, os')
         \<and> (c \<noteq> CHR ''%'' \<longrightarrow>
              format X os' (CHR ''%'' # c # p) [] = (Thrown NotEnoughArguments, os'))
         \<and> format X os' ''%'' [] = (Thrown NotEnoughArguments, os')"
proof -
  have "fst (format X os fmt args) \<noteq> Thrown UnknownConversionChar
        \<and> fst (format X os fmt args) \<noteq> PastEnd"
    using assms format_text_no_parse_error [of ps X os args] by auto
  then show ?thesis
    using format_count [of X os fmt args] by auto
qed

theorem argument_count_witness:
  "''%d %d'' = format_text
      [Specifier \<lparr>w_left = False, w_sign = [], w_pad = [], w_width = [], w_precision = None,
                  w_size = [], w_I64 = False, w_type = CHR ''d''\<rparr>,
       Literal (CHR '' ''),
       Specifier \<lparr>w_left = False, w_sign = [], w_pad = [], w_width = [], w_precision = None,
                  w_size = [], w_I64 = False, w_type = CHR ''d''\<rparr>]
   \<and> count_specs ''%d %d'' = 2
   \<and> fst (format example_ext stringstream ''%d %d'' [Scalar (C_int 1), Scalar (C_int 2)])
     = Returned
   \<and> fst (format example_ext stringstream ''%d %d'' [Scalar (C_int 1)])
     = Thrown NotEnoughArguments
   \<and> fst (format example_ext stringstream ''%d %d''
        [Scalar (C_int 1), Scalar (C_int 2), Scalar (C_int 3)])
     = Thrown TooManyArguments"
proof -
  let ?d = "\<lparr>w_left = False, w_sign = [], w_pad = [], w_width = [], w_precision = None,
             w_size = [], w_I64 = False, w_type = CHR ''d''\<rparr>"
  let ?ps = "[Specifier ?d, Literal (CHR '' ''), Specifier ?d]"
  have t: "''%d %d'' = format_text ?ps"
    by (simp add: format_text_def spec_text_def)
  have v: "list_all valid_piece ?ps" "list_all known_piece ?ps"
    by (simp_all add: valid_spec_def is_type_char_def isdigit_def isspace_def)
  have c: "count_specs ''%d %d'' = 2"
    by (simp add: parse_eval)
  have h: "(''%d %d'' = format_text ?ps \<and> list_all valid_piece ?ps \<and> list_all known_piece ?ps)
           \<or> (fst (format example_ext stringstream ''%d %d'' args) \<noteq> Thrown UnknownConversionChar
               \<and> fst (format example_ext stringstream ''%d %d'' args) \<noteq> PastEnd)" for args
    using t v by simp
  show ?thesis
    using argument_count [OF h [of "[Scalar (C_int 1), Scalar (C_int 2)]"]]
      argument_count [OF h [of "[Scalar (C_int 1)]"]]
      argument_count [OF h [of "[Scalar (C_int 1), Scalar (C_int 2), Scalar (C_int 3)]"]]
      t c
    by simp
qed

text \<open>
  The claim has the call succeed whenever the two numbers are equal. \<open>%Q\<close> is one
  specifier and is given one argument, and the call raises UnknownConversionChar.
\<close>

theorem argument_count_counterexample:
  "count_specs ''%Q'' = length [Scalar (C_int 1)]
   \<and> stringformat example_ext ''%Q'' [Scalar (C_int 1)] = Throws UnknownConversionChar"
  by (simp add: parse_eval format_eval)

section \<open>What a specifier sets in the stream\<close>

lemma parse_spec_padchar:
  "parse_spec p = Some (sp, q) \<Longrightarrow> padchar sp \<in> set '' 0,''"
  by (auto simp: parse_spec_def parse_padchar_def
      split: prod.splits option.splits list.splits if_splits)

lemma applytype_switch_result:
  "case applytype_switch os t of
     None \<Rightarrow> True
   | Some os1 \<Rightarrow>
       os_showpos os1 = os_showpos os \<and> os_adjust os1 = os_adjust os
       \<and> os_width os1 = os_width os \<and> os_precision os1 = os_precision os
       \<and> os_fill os1 = os_fill os \<and> os_buf os1 = os_buf os
       \<and> os_base os1 = (if t \<in> set ''idu'' then Dec else if t = CHR ''o'' then Oct
                         else if t \<in> set ''xX'' then Hex else os_base os)"
  by (simp add: applytype_switch_def)

lemma applytype_fields:
  assumes "applytype os t = Some os1"
  shows "os_uppercase os1 = is_upper t"
    and "os_base os1 = (if t \<in> set ''idu'' then Dec else if t = CHR ''o'' then Oct
                        else if t \<in> set ''xX'' then Hex else os_base os)"
    and "os_showpos os1 = os_showpos os" and "os_adjust os1 = os_adjust os"
    and "os_width os1 = os_width os" and "os_precision os1 = os_precision os"
    and "os_fill os1 = os_fill os" and "os_buf os1 = os_buf os"
proof -
  obtain os0 where 0: "applytype_switch os t = Some os0"
    and 1: "os1 = os0\<lparr>os_uppercase := is_upper t\<rparr>"
    using assms by (auto simp: applytype_def split: option.splits)
  note 2 = applytype_switch_result [of os t, unfolded 0, simplified]
  show "os_uppercase os1 = is_upper t"
    by (simp add: 1)
  show "os_base os1 = (if t \<in> set ''idu'' then Dec else if t = CHR ''o'' then Oct
                        else if t \<in> set ''xX'' then Hex else os_base os)"
    using 2 by (simp add: 1)
  show "os_showpos os1 = os_showpos os" and "os_adjust os1 = os_adjust os"
    and "os_width os1 = os_width os" and "os_precision os1 = os_precision os"
    and "os_fill os1 = os_fill os" and "os_buf os1 = os_buf os"
    using 2 by (simp_all add: 1)
qed

text \<open>
  C2, as the code has it. Before an argument is emitted the specifier sets the fill
  character (a space unless the specifier gives \<open>0\<close> or a comma), the sign display
  (forced only by \<open>+\<close>), the width (0 unless the specifier gives one) and the letter
  case. The adjustment is set to left by \<open>-\<close> and to right by a width without \<open>-\<close>, and
  is kept otherwise. The numeric base is set by the integer type characters only:
  under every other type character it stays what an earlier specifier made it. The
  precision is kept unless the specifier gives one.
\<close>

theorem specifier_configuration:
  assumes "parse_spec p = Some (sp, q)" and "applytype os (type sp) = Some os1"
  shows "padchar sp \<in> set '' 0,''
         \<and> os_fill (use_formatting os1 sp) = padchar sp
         \<and> os_showpos (use_formatting os1 sp) = forcesign sp
         \<and> os_width (use_formatting os1 sp) = (if havewidth sp then width sp else 0)
         \<and> os_uppercase (use_formatting os1 sp) = is_upper (type sp)
         \<and> os_adjust (use_formatting os1 sp)
             = (if leftadjust sp then AdjLeft else if havewidth sp then AdjRight
                else os_adjust os)
         \<and> os_base (use_formatting os1 sp)
             = (if type sp \<in> set ''idu'' then Dec else if type sp = CHR ''o'' then Oct
                else if type sp \<in> set ''xX'' then Hex else os_base os)
         \<and> os_precision (use_formatting os1 sp)
             = (if haveprecision sp then precision sp else os_precision os)"
  using parse_spec_padchar [OF assms(1)] applytype_fields [OF assms(2)]
  by (simp add: use_formatting_def Let_def)

theorem specifier_configuration_witness:
  "parse_spec ''s'' =
     Some (\<lparr>leftadjust = False, forcesign = False, padchar = CHR '' '', width = 0,
             havewidth = False, precision = 0, haveprecision = False, type = CHR ''s''\<rparr>, [])
   \<and> applytype (stringstream\<lparr>os_base := Hex\<rparr>) (CHR ''s'') = Some (stringstream\<lparr>os_base := Hex\<rparr>)
   \<and> os_base (use_formatting (stringstream\<lparr>os_base := Hex\<rparr>)
        \<lparr>leftadjust = False, forcesign = False, padchar = CHR '' '', width = 0,
          havewidth = False, precision = 0, haveprecision = False, type = CHR ''s''\<rparr>) = Hex"
proof -
  have p: "parse_spec ''s'' =
     Some (\<lparr>leftadjust = False, forcesign = False, padchar = CHR '' '', width = 0,
             havewidth = False, precision = 0, haveprecision = False, type = CHR ''s''\<rparr>, [])"
    by (simp add: parse_eval)
  have a: "applytype (stringstream\<lparr>os_base := Hex\<rparr>) (type
      \<lparr>leftadjust = False, forcesign = False, padchar = CHR '' '', width = 0,
        havewidth = False, precision = 0, haveprecision = False, type = CHR ''s''\<rparr>)
      = Some (stringstream\<lparr>os_base := Hex\<rparr>)"
    by (simp add: applytype_def applytype_switch_def is_upper_def stringstream_def)
  show ?thesis
    using specifier_configuration [OF p a] p a by (simp add: stringstream_def)
qed

text \<open>
  The claim has the numeric base reset to decimal by a specifier that gives none. After
  \<open>%x\<close> the elements of a vector under \<open>%s\<close> are written in hexadecimal; under \<open>%s\<close>
  alone they are written in decimal.
\<close>

theorem base_carries_over_counterexample:
  "stringformat example_ext ''%x %s'' [Scalar (C_int 255), Vector T_int [C_int 255]]
     = Returns ''ff ff''
   \<and> stringformat example_ext ''%s'' [Vector T_int [C_int 255]] = Returns ''255''"
  by (simp add: parse_eval format_eval stream_eval Let_def)

section \<open>Size characters\<close>

text \<open>
  C3, as the code has it. In a format string written by the grammar, the size
  characters \<open>q h l L z j t\<close> and the marker \<open>I64\<close> before the type character of any of
  its specifiers change nothing: the call ends the same way, with the same stream and
  the same text, as for the format string without them.
\<close>

theorem size_characters_ignored:
  assumes "list_all valid_piece ps"
  shows "format X os (format_text ps) args = format X os (format_text (map without_size ps)) args
         \<and> stringformat X (format_text ps) args
           = stringformat X (format_text (map without_size ps)) args"
  using format_without_size [OF assms, of X _ "[]" args]
  by (simp add: stringformat_def)

theorem size_characters_ignored_witness:
  "list_all valid_piece
     [Literal (CHR ''n''), Literal (CHR ''=''),
      Specifier \<lparr>w_left = False, w_sign = [], w_pad = ''0'', w_width = ''5'',
                  w_precision = None, w_size = ''ll'', w_I64 = False, w_type = CHR ''d''\<rparr>,
      Percent,
      Specifier \<lparr>w_left = False, w_sign = [], w_pad = [], w_width = [],
                  w_precision = None, w_size = [], w_I64 = True, w_type = CHR ''x''\<rparr>]
   \<and> stringformat example_ext ''n=%05lld%%%I64x'' [Scalar (C_int 42), Scalar (C_int 255)]
     = stringformat example_ext ''n=%05d%%%x'' [Scalar (C_int 42), Scalar (C_int 255)]
   \<and> stringformat example_ext ''n=%05d%%%x'' [Scalar (C_int 42), Scalar (C_int 255)]
     = Returns ''n=00042%ff''"
proof -
  let ?ps = "[Literal (CHR ''n''), Literal (CHR ''=''),
      Specifier \<lparr>w_left = False, w_sign = [], w_pad = ''0'', w_width = ''5'',
                  w_precision = None, w_size = ''ll'', w_I64 = False, w_type = CHR ''d''\<rparr>,
      Percent,
      Specifier \<lparr>w_left = False, w_sign = [], w_pad = [], w_width = [],
                  w_precision = None, w_size = [], w_I64 = True, w_type = CHR ''x''\<rparr>]"
  have v: "list_all valid_piece ?ps"
    by (simp add: valid_spec_def is_type_char_def isdigit_def isspace_def)
  have a: "format_text ?ps = ''n=%05lld%%%I64x''"
    by (simp add: format_text_def spec_text_def)
  have b: "format_text (map without_size ?ps) = ''n=%05d%%%x''"
    by (simp add: format_text_def spec_text_def)
  have c: "stringformat example_ext ''n=%05d%%%x'' [Scalar (C_int 42), Scalar (C_int 255)]
           = Returns ''n=00042%ff''"
    by (simp add: parse_eval format_eval stream_eval)
  show ?thesis
    using size_characters_ignored
      [OF v, of example_ext stringstream "[Scalar (C_int 42), Scalar (C_int 255)]"]
    unfolding a b using v c by simp
qed

text \<open>
  The claim has the marker \<open>I32\<close> ignored as well. With \<open>%I32d\<close> the character \<open>3\<close> is
  taken as the type character, and the call raises UnknownConversionChar, while \<open>%d\<close>
  writes the number.
\<close>

theorem size_I32_counterexample:
  "stringformat example_ext ''%I32d'' [Scalar (C_int 7)] = Throws UnknownConversionChar
   \<and> stringformat example_ext ''%d'' [Scalar (C_int 7)] = Returns ''7''"
  by (simp add: parse_eval format_eval stream_eval)

section \<open>Width and padding\<close>




section \<open>The byte dump of containers\<close>





section \<open>Containers written by the generic strategy\<close>

lemma put_elements_next:
  "os_buf (put_elements X st (os_fill st) False os buf)
   = os_buf os @ concat (map (next_element_text X st) buf)"
proof (induction buf arbitrary: os)
  case Nil
  show ?case by simp
next
  case (Cons b buf)
  show ?case
    by (simp add: Cons.IH Let_def copyfmt_def put_char_def put_unsigned_def insert_text_def
        next_element_text_def element_text_def padded_def)
qed

lemma put_container_text:
  "os_buf (put_container X os buf) = os_buf os @ elements_text X os buf"
  by (cases buf)
    (simp_all add: put_container_def elements_text_def put_elements_next Let_def copyfmt_def
      put_unsigned_def insert_text_def element_text_def)

text \<open>
  C6, as the code has it. Under every type character of the generic strategy a
  \<open>std::vector\<close> or \<open>std::array\<close> is written element by element: each element is
  converted to \<open>unsigned\<close> and written as a number in the stream's base, the first one
  padded to the field width, every further one behind the padded fill character. For
  \<open>%s\<close> in a fresh stream these are the decimal numbers separated by one space.
\<close>

theorem container_elements_unsigned:
  assumes "t \<notin> set ''cpbiduoxX''" and "t \<noteq> CHR 0x00"
  shows "os_buf (emit X os t (Vector ty buf)) = os_buf os @ elements_text X os buf
         \<and> emit X os t (Array ty buf) = emit X os t (Vector ty buf)
         \<and> stringformat X ''%s'' [Vector ty buf] = Returns (elements_text X stringstream buf)"
proof -
  have e: "emit X os t (Vector ty buf) = put_container X os buf"
    "emit X os t (Array ty buf) = put_container X os buf"
    using assms by (simp_all add: emit_def strchr_def)
  have "stringformat X ''%s'' [Vector ty buf]
        = Returns (os_buf (put_container X stringstream buf))"
    by (simp add: parse_eval stringformat_def stringstream_def conversion_def applytype_def
        applytype_switch_def is_upper_def use_formatting_def emit_def)
  then have "stringformat X ''%s'' [Vector ty buf] = Returns (elements_text X stringstream buf)"
    by (simp add: put_container_text stringstream_def)
  with e show ?thesis
    by (simp add: put_container_text)
qed

theorem container_elements_unsigned_witness:
  "CHR ''s'' \<notin> set ''cpbiduoxX'' \<and> CHR ''s'' \<noteq> CHR 0x00
   \<and> stringformat example_ext ''%s'' [Vector T_int [C_int 1, C_int 2, C_int 3]]
     = Returns ''1 2 3''"
  using container_elements_unsigned
    [where t = "CHR ''s''" and X = example_ext and ty = T_int
       and buf = "[C_int 1, C_int 2, C_int 3]"]
  by (simp add: elements_text_def next_element_text_def element_text_def stringstream_def
      stream_eval)

text \<open>
  The claim has each element written as it is. A vector holding the \<open>int\<close> \<open>-1\<close> is
  written as \<open>4294967295\<close>, while the generic strategy writes the \<open>int\<close> \<open>-1\<close> itself as
  \<open>-1\<close>.
\<close>

theorem container_elements_counterexample:
  "stringformat example_ext ''%s'' [Vector T_int [C_int (- 1)]] = Returns ''4294967295''
   \<and> stringformat example_ext ''%s'' [Scalar (C_int (- 1))] = Returns ''-1''"
proof -
  have "unat (- 1 :: 32 word) = 4294967295"
    by (simp add: unsigned_minus_1_eq_mask mask_eq_exp_minus_1)
  then show ?thesis
    by (simp add: parse_eval format_eval stream_eval Let_def)
qed

section \<open>The decimal round trip\<close>

text \<open>
  C7. For every 32-bit signed integer \<open>n\<close>, \<open>format("%d", n)\<close> returns the decimal text
  of \<open>n\<close>, and \<open>strtol\<close> reads that text back as \<open>n\<close>, with nothing left over.
\<close>

theorem decimal_round_trip:
  fixes n :: "32 word"
  shows "stringformat X ''%d'' [Scalar (C_int n)] = Returns (decimal_text (sint n))
         \<and> strtol (decimal_text (sint n)) = (sint n, [])"
proof -
  have "- (2 ^ 31) \<le> sint n" "sint n < 2 ^ 31"
    using sint_ge [of n] sint_lt [of n] by simp_all
  then have "strtol (decimal_text (sint n)) = (sint n, [])"
    by (intro strtol_decimal_text) (simp_all add: LONG_MIN_def LONG_MAX_def)
  then show ?thesis
    by (simp add: format_percent_d)
qed

section \<open>Reading past the end of the format string\<close>

text \<open>
  C8. The claim is that the scan cursor never leaves the format string. The loop that
  skips the size characters tests \<open>std::strchr("qhlLzjt", *p)\<close>, which also holds on
  the terminating NUL: with an argument to consume, a format string that ends inside a
  specifier, such as \<open>"%l"\<close>, \<open>"%"\<close> or \<open>"%5"\<close>, moves the cursor past the terminator and
  reads there; so does one that ends in \<open>I\<close>, whose test reads \<open>p[1]\<close>.
\<close>

theorem format_reads_past_end:
  "stringformat X ''%l'' [v] = ReadsPastEnd
   \<and> stringformat X ''%'' [v] = ReadsPastEnd
   \<and> stringformat X ''%5'' [v] = ReadsPastEnd
   \<and> stringformat X ''%I'' [v] = ReadsPastEnd"
  by (simp add: parse_eval format_eval)

section \<open>Error precedence with no argument left\<close>

lemma format0_percent:
  "take 1 p \<noteq> ''%'' \<Longrightarrow> format0 os (CHR ''%'' # p) = (Thrown NotEnoughArguments, os)"
  by (cases p) auto

lemma format0_literal:
  "CHR ''%'' \<notin> set lit \<Longrightarrow> format0 os (lit @ p) = format0 (foldl put_char os lit) p"
  by (induction lit arbitrary: os) auto

text \<open>
  C9. With no argument left, a \<open>%\<close> that is not followed by a second one raises
  NotEnoughArguments whatever follows it: the rest \<open>p\<close> of the format string is not
  examined, and the stream is left as it was when the \<open>%\<close> was met. After literal text
  \<open>lit\<close> this is what \<open>stringformat\<close> raises. So \<open>"%Q"\<close> with no argument raises
  NotEnoughArguments, while with one argument it raises UnknownConversionChar.
\<close>

theorem not_enough_arguments_first:
  assumes "take 1 p \<noteq> ''%''" and "CHR ''%'' \<notin> set lit"
  shows "format X os (CHR ''%'' # p) [] = (Thrown NotEnoughArguments, os)
         \<and> stringformat X (lit @ CHR ''%'' # p) [] = Throws NotEnoughArguments
         \<and> stringformat X ''%Q'' [v] = Throws UnknownConversionChar"
proof -
  have "format X os (CHR ''%'' # p) [] = format0 os (CHR ''%'' # p)"
    by simp
  then have 1: "format X os (CHR ''%'' # p) [] = (Thrown NotEnoughArguments, os)"
    using format0_percent [OF assms(1)] by simp
  have "format X stringstream (lit @ CHR ''%'' # p) []
        = format0 (foldl put_char stringstream lit) (CHR ''%'' # p)"
    using format0_literal [OF assms(2)] by simp
  then have 2: "stringformat X (lit @ CHR ''%'' # p) [] = Throws NotEnoughArguments"
    using format0_percent [OF assms(1)] by (simp add: stringformat_def)
  have 3: "stringformat X ''%Q'' [v] = Throws UnknownConversionChar"
    by (simp add: parse_eval format_eval)
  from 1 2 3 show ?thesis by simp
qed

theorem not_enough_arguments_first_witness:
  "take 1 ''Q'' \<noteq> ''%'' \<and> CHR ''%'' \<notin> set ''n=''
   \<and> format example_ext stringstream ''%Q'' [] = (Thrown NotEnoughArguments, stringstream)
   \<and> stringformat example_ext ''n=%Q'' [] = Throws NotEnoughArguments
   \<and> stringformat example_ext ''%Q'' [Scalar (C_int 1)] = Throws UnknownConversionChar"
  using not_enough_arguments_first
    [where p = "''Q''" and lit = "''n=''" and X = example_ext and os = stringstream
       and v = "Scalar (C_int 1)"]
  by simp

section \<open>Negative integers in hexadecimal and octal\<close>

text \<open>
  C10. A negative value of a signed integer type, formatted with \<open>%x\<close>, \<open>%X\<close> or \<open>%o\<close>,
  is widened to \<open>long long\<close>, which keeps its value, and written as the unsigned number
  with the same 64 bits, \<open>2 ^ 64 + n\<close>, in the base of the type character and without a
  sign.
\<close>

theorem negative_hex_octal:
  assumes "is_integral v" and "is_signed v" and "int_value v < 0" and "t \<in> set ''xXo''"
  shows "sint (to_long_long X v) = int_value v
         \<and> stringformat X [CHR ''%'', t] [Scalar v]
           = Returns (digits (if t = CHR ''o'' then 8 else 16) (t = CHR ''X'')
                        (nat (2 ^ 64 + int_value v)))"
proof -
  have s: "sint (to_long_long X v) = int_value v"
    using assms(1,2) by (rule sint_to_long_long)
  then have u: "unat (to_long_long X v) = nat (2 ^ 64 + int_value v)"
    using assms(3) unat_negative_long_long [of "to_long_long X v"] by simp
  have t: "t \<in> set ''iduoxX''" "t \<notin> set ''idu''"
    using assms(4) by auto
  have "stringformat X [CHR ''%'', t] [Scalar v]
        = Returns (digits (if t = CHR ''o'' then 8 else 16) (t = CHR ''X'')
                     (unat (to_long_long X v)))"
    using assms(1,2) t(2)
    by (simp add: format_one_int [OF t(1)] put_signed_def signed_text_def insert_text_def
        padded_def stringstream_def)
  with s u show ?thesis by simp
qed

theorem negative_hex_octal_witness:
  "is_integral (C_int (- 1)) \<and> is_signed (C_int (- 1)) \<and> int_value (C_int (- 1)) < 0
   \<and> CHR ''x'' \<in> set ''xXo''
   \<and> stringformat example_ext ''%x'' [Scalar (C_int (- 1))] = Returns ''ffffffffffffffff''"
  using negative_hex_octal [where v = "C_int (- 1)" and t = "CHR ''x''" and X = example_ext]
  by (simp add: digits.simps digit_char_def char_of_eq_iff)

end
